theory Spec2Isabelle
  imports Main
begin

section \<open>Values exchanged with the Kafka client\<close>

text \<open>
  The helper of \<^verbatim>\<open>common/helpers/kafka-helper.js\<close> wraps a kafkajs producer and a
  kafkajs consumer. JavaScript exceptions are values of \<open>error\<close>; the three constructors
  are the three kinds of exception the helper can meet: a plain \<^verbatim>\<open>Error\<close> (its own
  "not connected" error, a failure of the client, an exception of the caller's filter),
  the \<^verbatim>\<open>SyntaxError\<close> of \<^verbatim>\<open>JSON.parse\<close> and the \<^verbatim>\<open>TypeError\<close> of
  \<^verbatim>\<open>message.value.toString()\<close> on a message without value.
\<close>

datatype error = Error string | SyntaxError string | TypeError string

datatype level = Info | Warn | Err

type_synonym log_entry = "level \<times> string"

text \<open>The message that kafkajs hands to \<^verbatim>\<open>eachMessage\<close>: key and value are buffers or null.\<close>

record kafka_message =
  msg_key :: "string option"
  msg_value :: "string option"
  msg_offset :: nat
  msg_timestamp :: nat

text \<open>The argument of \<^verbatim>\<open>eachMessage\<close>: \<^verbatim>\<open>{ topic, partition, message }\<close>.\<close>

record payload =
  p_topic :: string
  p_partition :: nat
  p_message :: kafka_message

text \<open>The object the helper builds for a matching message.\<close>

record 'v event =
  ev_topic :: string
  ev_partition :: nat
  ev_offset :: nat
  ev_key :: "string option"
  ev_value :: 'v
  ev_timestamp :: nat

text \<open>The message given to \<^verbatim>\<open>producer.send\<close>.\<close>

record produced =
  pr_key :: "string option"
  pr_value :: string

text \<open>
  The \<^verbatim>\<open>options\<close> object of \<^verbatim>\<open>consumeMessage\<close> and \<^verbatim>\<open>consumeMessages\<close>; \<open>None\<close> is a
  property that the caller left out. A filter returns a truth value or raises.
\<close>

record 'v options =
  opt_filter :: "('v \<Rightarrow> error + bool) option"
  opt_timeout :: "int option"
  opt_fromBeginning :: "bool option"
  opt_maxMessages :: "int option"


record 'n number_ops =
  number_falsy :: "'n \<Rightarrow> bool"
  number_String :: "'n \<Rightarrow> string"

section \<open>The wrapped client\<close>

text \<open>
  kafkajs is not part of the repository. What the helper depends on is a parameter of
  the model:
  \<^item> \<open>subscribe_answer cl n topic\<close> is the answer to the \<open>n\<close>-th call of
    \<^verbatim>\<open>consumer.subscribe\<close>, made for \<open>topic\<close>; \<open>None\<close> is success;
  \<^item> \<open>send_answer cl n\<close> is the answer to the \<open>n\<close>-th \<^verbatim>\<open>producer.send\<close>;
  \<^item> \<open>stop_completes cl\<close> says whether the promise of \<^verbatim>\<open>consumer.stop()\<close>, awaited inside
    the \<^verbatim>\<open>eachMessage\<close> handler, is ever fulfilled. The \<^verbatim>\<open>stop\<close> of kafkajs waits for the
    handler in progress, which is the very handler that awaits it, so with kafkajs it is
    not; with a client double whose \<^verbatim>\<open>stop\<close> resolves at once it is.
\<close>

record client =
  subscribe_answer :: "nat \<Rightarrow> string \<Rightarrow> error option"
  send_answer :: "nat \<Rightarrow> error option"
  stop_completes :: bool

section \<open>The helper object\<close>

text \<open>
  The fields of \<^verbatim>\<open>this\<close> that the three operations read or change, together with what
  the wrapped client has been asked to do: the subscriptions made, whether the consumer
  delivers messages (from \<^verbatim>\<open>consumer.run\<close> until \<^verbatim>\<open>consumer.stop\<close> is called), how often
  \<^verbatim>\<open>subscribe\<close> and \<^verbatim>\<open>stop\<close> were called, the messages sent, and the lines logged.
\<close>

record helper =
  isConnected :: bool
  running :: bool
  subscriptions :: "(string \<times> bool) list"
  subscribe_calls :: nat
  stop_calls :: nat
  sent :: "(string \<times> produced) list"
  logs :: "log_entry list"

definition logger_info :: "helper \<Rightarrow> string \<Rightarrow> helper" where
  "logger_info h s = h\<lparr>logs := logs h @ [(Info, s)]\<rparr>"

definition logger_warn :: "helper \<Rightarrow> string \<Rightarrow> helper" where
  "logger_warn h s = h\<lparr>logs := logs h @ [(Warn, s)]\<rparr>"

definition logger_error :: "helper \<Rightarrow> string \<Rightarrow> helper" where
  "logger_error h s = h\<lparr>logs := logs h @ [(Err, s)]\<rparr>"

text \<open>\<^verbatim>\<open>await this.consumer.subscribe({ topic, fromBeginning })\<close>.\<close>

definition consumer_subscribe ::
  "client \<Rightarrow> helper \<Rightarrow> string \<Rightarrow> bool \<Rightarrow> error option \<times> helper" where
  "consumer_subscribe cl h topic fromBeginning =
     (case subscribe_answer cl (subscribe_calls h) topic of
        Some e \<Rightarrow> (Some e, h\<lparr>subscribe_calls := Suc (subscribe_calls h)\<rparr>)
      | None \<Rightarrow> (None, h\<lparr>subscribe_calls := Suc (subscribe_calls h),
                         subscriptions := subscriptions h @ [(topic, fromBeginning)]\<rparr>))"

text \<open>
  \<^verbatim>\<open>this.consumer.run({ eachMessage })\<close> starts the delivery of messages to the callback;
  the promise it returns is dropped by the source. \<open>consumer_stop\<close> is the call of
  \<^verbatim>\<open>this.consumer.stop()\<close>: from then on nothing more is delivered. Whether the
  \<^verbatim>\<open>await\<close> of that call returns is \<open>stop_completes\<close>, and is written out where the
  source awaits it.
\<close>

definition consumer_run :: "helper \<Rightarrow> helper" where
  "consumer_run h = h\<lparr>running := True\<rparr>"

definition consumer_stop :: "helper \<Rightarrow> helper" where
  "consumer_stop h = h\<lparr>running := False, stop_calls := Suc (stop_calls h)\<rparr>"


section \<open>Promises, events and time\<close>

datatype 'r promise = Pending | Resolved 'r | Rejected error

text \<open>\<^verbatim>\<open>resolve\<close> and \<^verbatim>\<open>reject\<close> settle a pending promise and do nothing to a settled one.\<close>

definition resolve :: "'r promise \<Rightarrow> 'r \<Rightarrow> 'r promise" where
  "resolve p r = (case p of Pending \<Rightarrow> Resolved r | _ \<Rightarrow> p)"

definition reject :: "'r promise \<Rightarrow> error \<Rightarrow> 'r promise" where
  "reject p e = (case p of Pending \<Rightarrow> Rejected e | _ \<Rightarrow> p)"

text \<open>
  After the subscription is armed, the code of a wait runs only in the two callbacks it
  has registered: \<^verbatim>\<open>eachMessage\<close>, once per message delivered by the consumer, and the
  timer callback of \<^verbatim>\<open>setTimeout\<close>. kafkajs awaits each \<^verbatim>\<open>eachMessage\<close> before it
  delivers the next message, and the timer is cleared before the only \<^verbatim>\<open>await\<close> inside
  the callback, so every callback is one step. A failure of the consumer or of the
  transport during the wait is an event too, \<open>ConsumerFails\<close>: kafkajs reports it through
  the promise of \<^verbatim>\<open>run\<close>, which the source drops, or through its own crash event, for
  which the source registers no listener.
\<close>

datatype input = Message payload | TimerFires | ConsumerFails error

text \<open>
  What the environment does during a wait, each with its time in milliseconds after the
  call of \<^verbatim>\<open>setTimeout\<close> (\<^verbatim>\<open>consumer.run\<close> is called in the same turn): a message is
  delivered, or the consumer fails. A timeline lists them in the order in which the
  event loop gets them.
\<close>

datatype happening = Delivers payload | Crashes error

type_synonym timeline = "(nat \<times> happening) list"

fun event_of :: "happening \<Rightarrow> input" where
  "event_of (Delivers d) = Message d"
| "event_of (Crashes e) = ConsumerFails e"

text \<open>
  \<^verbatim>\<open>setTimeout(callback, timeout)\<close>: Node sets a delay below 1 or above \<open>2147483647\<close> to 1.
\<close>

definition timer_delay :: "int \<Rightarrow> nat" where
  "timer_delay t = (if t < 1 \<or> 2147483647 < t then 1 else nat t)"

text \<open>
  The events of a wait up to the time \<open>now\<close>, in the order in which they are handled:
  what happens before the delay has passed, then, once it has passed, the timer, then
  what happens from then on. Whether the timer callback then does anything depends on
  the timer still being set.
\<close>

definition early :: "nat \<Rightarrow> nat \<Rightarrow> timeline \<Rightarrow> input list" where
  "early delay now tml =
     map (\<lambda>y. event_of (snd y)) (filter (\<lambda>y. fst y < delay \<and> fst y \<le> now) tml)"

definition late :: "nat \<Rightarrow> nat \<Rightarrow> timeline \<Rightarrow> input list" where
  "late delay now tml =
     map (\<lambda>y. event_of (snd y)) (filter (\<lambda>y. delay \<le> fst y \<and> fst y \<le> now) tml)"

definition schedule :: "nat \<Rightarrow> nat \<Rightarrow> timeline \<Rightarrow> input list" where
  "schedule delay now tml =
     early delay now tml @ (if delay \<le> now then TimerFires # late delay now tml else [])"

text \<open>What the caller of an \<^verbatim>\<open>async\<close> operation has got at the time considered.\<close>

datatype 'r completion = Returned 'r | Threw error | Waiting

section \<open>consumeMessage\<close>

text \<open>
  \<^verbatim>\<open>JSON.parse(message.value.toString())\<close>: a message without value raises a
  \<^verbatim>\<open>TypeError\<close>; otherwise the text is parsed by \<^verbatim>\<open>JSON.parse\<close>, a parameter \<open>parse\<close>
  of the model, which returns the decoded value or raises.
\<close>

definition decode :: "(string \<Rightarrow> error + 'v) \<Rightarrow> string option \<Rightarrow> error + 'v" where
  "decode parse v =
     (case v of
        None \<Rightarrow> Inl (TypeError ''Cannot read properties of null (reading 'toString')'')
      | Some s \<Rightarrow> parse s)"

definition mk_event :: "payload \<Rightarrow> 'v \<Rightarrow> 'v event" where
  "mk_event d v =
     \<lparr>ev_topic = p_topic d,
      ev_partition = p_partition d,
      ev_offset = msg_offset (p_message d),
      ev_key = (case msg_key (p_message d) of Some k \<Rightarrow> Some k | None \<Rightarrow> None),
      ev_value = v,
      ev_timestamp = msg_timestamp (p_message d)\<rparr>"

text \<open>
  The closure of the promise executor: the helper, the timer (\<open>Some timeout\<close> from
  \<^verbatim>\<open>setTimeout\<close> until it fires or is cleared) and the promise.
\<close>

record 'v waiting =
  w_helper :: helper
  w_timer :: "int option"
  w_promise :: "'v event option promise"

text \<open>
  The \<^verbatim>\<open>catch\<close> block of \<^verbatim>\<open>eachMessage\<close>: \<^verbatim>\<open>clearTimeout\<close>, \<^verbatim>\<open>await stop()\<close>, then
  \<^verbatim>\<open>reject(error)\<close>, which is reached only when the awaited \<^verbatim>\<open>stop\<close> completes.
\<close>

definition catch_one :: "client \<Rightarrow> 'v waiting \<Rightarrow> error \<Rightarrow> 'v waiting" where
  "catch_one cl w e =
     w\<lparr>w_timer := None,
       w_helper := consumer_stop (w_helper w),
       w_promise := (if stop_completes cl then reject (w_promise w) e else w_promise w)\<rparr>"

text \<open>
  The branch taken when there is no filter or the filter accepts the value:
  \<^verbatim>\<open>clearTimeout\<close>, \<^verbatim>\<open>await stop()\<close>, then \<^verbatim>\<open>resolve({...})\<close>.
\<close>

definition matched_one :: "client \<Rightarrow> 'v waiting \<Rightarrow> payload \<Rightarrow> 'v \<Rightarrow> 'v waiting" where
  "matched_one cl w d v =
     w\<lparr>w_timer := None,
       w_helper := consumer_stop (w_helper w),
       w_promise := (if stop_completes cl then resolve (w_promise w) (Some (mk_event d v))
                     else w_promise w)\<rparr>"

definition eachMessage_one ::
  "client \<Rightarrow> (string \<Rightarrow> error + 'v) \<Rightarrow> ('v \<Rightarrow> error + bool) option \<Rightarrow> 'v waiting \<Rightarrow> payload
     \<Rightarrow> 'v waiting" where
  "eachMessage_one cl parse filt w d =
     (case decode parse (msg_value (p_message d)) of
        Inl e \<Rightarrow> catch_one cl w e
      | Inr v \<Rightarrow>
          (let w1 = w\<lparr>w_helper :=
                       logger_info (w_helper w) (''Received message from topic: '' @ p_topic d)\<rparr>
           in case filt of
                None \<Rightarrow> matched_one cl w1 d v
              | Some f \<Rightarrow>
                  (case f v of
                     Inl e \<Rightarrow> catch_one cl w1 e
                   | Inr b \<Rightarrow> if b then matched_one cl w1 d v else w1)))"

text \<open>The timer callback: it logs and resolves with null; it does not touch the consumer.\<close>

definition timeout_one :: "string \<Rightarrow> 'v waiting \<Rightarrow> 'v waiting" where
  "timeout_one topic w =
     w\<lparr>w_timer := None,
       w_helper := logger_warn (w_helper w) (''Timeout waiting for message from topic: '' @ topic),
       w_promise := resolve (w_promise w) None\<rparr>"

text \<open>
  One event of the event loop. A consumer whose \<^verbatim>\<open>stop\<close> was called delivers nothing, a
  timer that was cleared or has fired does not fire, and a failure of the consumer runs
  no code of the wait.
\<close>

definition step_one ::
  "client \<Rightarrow> (string \<Rightarrow> error + 'v) \<Rightarrow> ('v \<Rightarrow> error + bool) option \<Rightarrow> string \<Rightarrow> input
     \<Rightarrow> 'v waiting \<Rightarrow> 'v waiting" where
  "step_one cl parse filt topic i w =
     (case i of
        Message d \<Rightarrow> if running (w_helper w) then eachMessage_one cl parse filt w d else w
      | TimerFires \<Rightarrow> (case w_timer w of None \<Rightarrow> w | Some t \<Rightarrow> timeout_one topic w)
      | ConsumerFails e \<Rightarrow> w)"

fun run_one ::
  "client \<Rightarrow> (string \<Rightarrow> error + 'v) \<Rightarrow> ('v \<Rightarrow> error + bool) option \<Rightarrow> string \<Rightarrow> input list
     \<Rightarrow> 'v waiting \<Rightarrow> 'v waiting" where
  "run_one cl parse filt topic [] w = w"
| "run_one cl parse filt topic (i # is) w =
     run_one cl parse filt topic is (step_one cl parse filt topic i w)"

text \<open>
  The part of \<^verbatim>\<open>consumeMessage\<close> up to the creation of the promise: the connection check,
  the defaults of the options, the subscription, \<^verbatim>\<open>setTimeout\<close> and \<^verbatim>\<open>consumer.run\<close>.
  \<open>Inl\<close> is an exception thrown before any wait exists, with the helper as it is then.
\<close>

definition not_connected :: error where
  "not_connected = Error ''Kafka is not connected. Call connect() first.''"

definition timeout_of :: "'v options \<Rightarrow> int" where
  "timeout_of opts = (case opt_timeout opts of None \<Rightarrow> 10000 | Some t \<Rightarrow> t)"

definition fromBeginning_of :: "'v options \<Rightarrow> bool" where
  "fromBeginning_of opts = (case opt_fromBeginning opts of None \<Rightarrow> True | Some b \<Rightarrow> b)"

definition maxMessages_of :: "'v options \<Rightarrow> int" where
  "maxMessages_of opts = (case opt_maxMessages opts of None \<Rightarrow> 10 | Some k \<Rightarrow> k)"

definition consumeMessage_arm ::
  "client \<Rightarrow> helper \<Rightarrow> string \<Rightarrow> 'v options \<Rightarrow> (error \<times> helper) + 'v waiting" where
  "consumeMessage_arm cl h topic opts =
     (if \<not> isConnected h then Inl (not_connected, h)
      else
        (let h1 = logger_info h (''Consuming message from topic: '' @ topic)
         in case consumer_subscribe cl h1 topic (fromBeginning_of opts) of
              (Some e, h2) \<Rightarrow>
                Inl (e, logger_error h2 (''Failed to consume message from topic: '' @ topic))
            | (None, h2) \<Rightarrow>
                Inr \<lparr>w_helper = consumer_run h2,
                     w_timer = Some (timeout_of opts),
                     w_promise = Pending\<rparr>))"

text \<open>
  \<^verbatim>\<open>return await new Promise(...)\<close> inside \<^verbatim>\<open>try\<close>: a rejection is logged by the outer
  \<^verbatim>\<open>catch\<close> and thrown again; while the promise is pending the caller keeps waiting.
\<close>

definition consumeMessage_finish ::
  "string \<Rightarrow> 'v waiting \<Rightarrow> 'v event option completion \<times> helper" where
  "consumeMessage_finish topic w =
     (case w_promise w of
        Pending \<Rightarrow> (Waiting, w_helper w)
      | Resolved r \<Rightarrow> (Returned r, w_helper w)
      | Rejected e \<Rightarrow>
          (Threw e, logger_error (w_helper w) (''Failed to consume message from topic: '' @ topic)))"

text \<open>
  The call, seen at the time \<open>now\<close> after the timer was set, when the environment did
  \<open>tml\<close>: what the caller has got, and the helper.
\<close>

definition consumeMessage ::
  "client \<Rightarrow> (string \<Rightarrow> error + 'v) \<Rightarrow> helper \<Rightarrow> string \<Rightarrow> 'v options \<Rightarrow> timeline \<Rightarrow> nat
     \<Rightarrow> 'v event option completion \<times> helper" where
  "consumeMessage cl parse h topic opts tml now =
     (case consumeMessage_arm cl h topic opts of
        Inl (e, h') \<Rightarrow> (Threw e, h')
      | Inr w \<Rightarrow>
          consumeMessage_finish topic
            (run_one cl parse (opt_filter opts) topic
               (schedule (timer_delay (timeout_of opts)) now tml) w))"

section \<open>consumeMessages\<close>

text \<open>Decimal numerals, for the template strings that hold a number.\<close>

definition digit_char :: "nat \<Rightarrow> char" where
  "digit_char n = ''0123456789'' ! (n mod 10)"

fun show_nat :: "nat \<Rightarrow> string" where
  "show_nat n = (if n < 10 then [digit_char n] else show_nat (n div 10) @ [digit_char n])"

definition show_int :: "int \<Rightarrow> string" where
  "show_int i = (if i < 0 then ''-'' @ show_nat (nat (- i)) else show_nat (nat i))"

text \<open>
  The closure of the promise executor of \<^verbatim>\<open>consumeMessages\<close>: it also holds the array
  \<^verbatim>\<open>messages\<close>. The promise is resolved with that array; \<open>c_promise\<close> records its
  contents at the moment of the resolution, which is what the awaiting caller reads
  first, and \<open>c_messages\<close> goes on as the array itself.
\<close>

record 'v collecting =
  c_helper :: helper
  c_timer :: "int option"
  c_messages :: "'v event list"
  c_promise :: "'v event list promise"

definition catch_many :: "client \<Rightarrow> 'v collecting \<Rightarrow> error \<Rightarrow> 'v collecting" where
  "catch_many cl c e =
     c\<lparr>c_timer := None,
       c_helper := consumer_stop (c_helper c),
       c_promise := (if stop_completes cl then reject (c_promise c) e else c_promise c)\<rparr>"

text \<open>
  The branch of a satisfying message: push, then test the length against the cap; at
  the cap \<^verbatim>\<open>clearTimeout\<close>, \<^verbatim>\<open>await stop()\<close>, then \<^verbatim>\<open>resolve(messages)\<close>.
\<close>

definition push_many :: "client \<Rightarrow> int \<Rightarrow> 'v collecting \<Rightarrow> payload \<Rightarrow> 'v \<Rightarrow> 'v collecting" where
  "push_many cl maxMessages c d v =
     (let c1 = c\<lparr>c_messages := c_messages c @ [mk_event d v]\<rparr>
      in if int (length (c_messages c1)) \<ge> maxMessages
         then c1\<lparr>c_timer := None,
                 c_helper := consumer_stop (c_helper c1),
                 c_promise := (if stop_completes cl
                               then resolve (c_promise c1) (c_messages c1)
                               else c_promise c1)\<rparr>
         else c1)"

definition eachMessage_many ::
  "client \<Rightarrow> (string \<Rightarrow> error + 'v) \<Rightarrow> ('v \<Rightarrow> error + bool) option \<Rightarrow> int \<Rightarrow> 'v collecting
     \<Rightarrow> payload \<Rightarrow> 'v collecting" where
  "eachMessage_many cl parse filt maxMessages c d =
     (case decode parse (msg_value (p_message d)) of
        Inl e \<Rightarrow> catch_many cl c e
      | Inr v \<Rightarrow>
          (case filt of
             None \<Rightarrow> push_many cl maxMessages c d v
           | Some f \<Rightarrow>
               (case f v of
                  Inl e \<Rightarrow> catch_many cl c e
                | Inr b \<Rightarrow> if b then push_many cl maxMessages c d v else c)))"

definition timeout_many :: "'v collecting \<Rightarrow> 'v collecting" where
  "timeout_many c =
     c\<lparr>c_timer := None,
       c_helper := logger_info (c_helper c)
         (''Timeout reached. Consumed '' @ show_nat (length (c_messages c)) @ '' messages''),
       c_promise := resolve (c_promise c) (c_messages c)\<rparr>"

definition step_many ::
  "client \<Rightarrow> (string \<Rightarrow> error + 'v) \<Rightarrow> ('v \<Rightarrow> error + bool) option \<Rightarrow> int \<Rightarrow> input
     \<Rightarrow> 'v collecting \<Rightarrow> 'v collecting" where
  "step_many cl parse filt maxMessages i c =
     (case i of
        Message d \<Rightarrow>
          if running (c_helper c) then eachMessage_many cl parse filt maxMessages c d else c
      | TimerFires \<Rightarrow> (case c_timer c of None \<Rightarrow> c | Some t \<Rightarrow> timeout_many c)
      | ConsumerFails e \<Rightarrow> c)"

fun run_many ::
  "client \<Rightarrow> (string \<Rightarrow> error + 'v) \<Rightarrow> ('v \<Rightarrow> error + bool) option \<Rightarrow> int \<Rightarrow> input list
     \<Rightarrow> 'v collecting \<Rightarrow> 'v collecting" where
  "run_many cl parse filt maxMessages [] c = c"
| "run_many cl parse filt maxMessages (i # is) c =
     run_many cl parse filt maxMessages is (step_many cl parse filt maxMessages i c)"

definition consumeMessages_arm ::
  "client \<Rightarrow> helper \<Rightarrow> string \<Rightarrow> 'v options \<Rightarrow> (error \<times> helper) + 'v collecting" where
  "consumeMessages_arm cl h topic opts =
     (if \<not> isConnected h then Inl (not_connected, h)
      else
        (let h1 = logger_info h
                    (''Consuming up to '' @ show_int (maxMessages_of opts)
                       @ '' messages from topic: '' @ topic)
         in case consumer_subscribe cl h1 topic (fromBeginning_of opts) of
              (Some e, h2) \<Rightarrow>
                Inl (e, logger_error h2 (''Failed to consume messages from topic: '' @ topic))
            | (None, h2) \<Rightarrow>
                Inr \<lparr>c_helper = consumer_run h2,
                     c_timer = Some (timeout_of opts),
                     c_messages = [],
                     c_promise = Pending\<rparr>))"

definition consumeMessages_finish ::
  "string \<Rightarrow> 'v collecting \<Rightarrow> 'v event list completion \<times> helper" where
  "consumeMessages_finish topic c =
     (case c_promise c of
        Pending \<Rightarrow> (Waiting, c_helper c)
      | Resolved r \<Rightarrow> (Returned r, c_helper c)
      | Rejected e \<Rightarrow>
          (Threw e, logger_error (c_helper c) (''Failed to consume messages from topic: '' @ topic)))"

definition consumeMessages ::
  "client \<Rightarrow> (string \<Rightarrow> error + 'v) \<Rightarrow> helper \<Rightarrow> string \<Rightarrow> 'v options \<Rightarrow> timeline \<Rightarrow> nat
     \<Rightarrow> 'v event list completion \<times> helper" where
  "consumeMessages cl parse h topic opts tml now =
     (case consumeMessages_arm cl h topic opts of
        Inl (e, h') \<Rightarrow> (Threw e, h')
      | Inr c \<Rightarrow>
          consumeMessages_finish topic
            (run_many cl parse (opt_filter opts) (maxMessages_of opts)
               (schedule (timer_delay (timeout_of opts)) now tml) c))"

section \<open>produceMessage\<close>




section \<open>What a candidate does to a wait\<close>

text \<open>
  The notions below are not functions of the source; the statements about the source
  are written with them. \<open>judge\<close> is the fate of one delivered message in the \<^verbatim>\<open>try\<close>
  block of either callback: decoding or the filter raises, or the value satisfies
  \<^verbatim>\<open>!filter || filter(value)\<close>, or it does not.
\<close>

datatype 'v verdict = Raises error | Accepted 'v | Skipped

definition judge ::
  "(string \<Rightarrow> error + 'v) \<Rightarrow> ('v \<Rightarrow> error + bool) option \<Rightarrow> payload \<Rightarrow> 'v verdict" where
  "judge parse filt d =
     (case decode parse (msg_value (p_message d)) of
        Inl e \<Rightarrow> Raises e
      | Inr v \<Rightarrow>
          (case filt of
             None \<Rightarrow> Accepted v
           | Some f \<Rightarrow>
               (case f v of Inl e \<Rightarrow> Raises e | Inr b \<Rightarrow> if b then Accepted v else Skipped)))"

definition raising ::
  "(string \<Rightarrow> error + 'v) \<Rightarrow> ('v \<Rightarrow> error + bool) option \<Rightarrow> payload \<Rightarrow> bool" where
  "raising parse filt d = (case judge parse filt d of Raises e \<Rightarrow> True | _ \<Rightarrow> False)"


text \<open>
  Kinds of events: a message that is decoded and turned down by the filter without an
  exception; an event that leaves a wait as it is (such a message, or a failure of the
  consumer); a message on which nothing raises.
\<close>

definition turned_down ::
  "(string \<Rightarrow> error + 'v) \<Rightarrow> ('v \<Rightarrow> error + bool) option \<Rightarrow> input \<Rightarrow> bool" where
  "turned_down parse filt i =
     (case i of
        Message d \<Rightarrow> (case judge parse filt d of Skipped \<Rightarrow> True | _ \<Rightarrow> False)
      | _ \<Rightarrow> False)"

definition quiet ::
  "(string \<Rightarrow> error + 'v) \<Rightarrow> ('v \<Rightarrow> error + bool) option \<Rightarrow> input \<Rightarrow> bool" where
  "quiet parse filt i =
     (case i of
        Message d \<Rightarrow> (case judge parse filt d of Skipped \<Rightarrow> True | _ \<Rightarrow> False)
      | TimerFires \<Rightarrow> False
      | ConsumerFails e \<Rightarrow> True)"

definition clean ::
  "(string \<Rightarrow> error + 'v) \<Rightarrow> ('v \<Rightarrow> error + bool) option \<Rightarrow> input \<Rightarrow> bool" where
  "clean parse filt i = (case i of Message d \<Rightarrow> \<not> raising parse filt d | _ \<Rightarrow> False)"

text \<open>
  The first event of a sequence that decides a single-match wait: the timer, a
  candidate that raises, or a candidate that is accepted. How the promise is settled
  then depends, for the last two, on the awaited \<^verbatim>\<open>stop\<close>.
\<close>

datatype 'v decision = Undecided | TimedOut | Failed error | Matched "'v event"

fun first_decisive ::
  "(string \<Rightarrow> error + 'v) \<Rightarrow> ('v \<Rightarrow> error + bool) option \<Rightarrow> input list \<Rightarrow> 'v decision" where
  "first_decisive parse filt [] = Undecided"
| "first_decisive parse filt (TimerFires # is) = TimedOut"
| "first_decisive parse filt (ConsumerFails e # is) = first_decisive parse filt is"
| "first_decisive parse filt (Message d # is) =
     (case judge parse filt d of
        Raises e \<Rightarrow> Failed e
      | Accepted v \<Rightarrow> Matched (mk_event d v)
      | Skipped \<Rightarrow> first_decisive parse filt is)"

definition settle_one :: "client \<Rightarrow> 'v decision \<Rightarrow> 'v event option promise" where
  "settle_one cl dec =
     (case dec of
        Undecided \<Rightarrow> Pending
      | TimedOut \<Rightarrow> Resolved None
      | Failed e \<Rightarrow> if stop_completes cl then Rejected e else Pending
      | Matched ev \<Rightarrow> if stop_completes cl then Resolved (Some ev) else Pending)"

definition completion_of :: "'r promise \<Rightarrow> 'r completion" where
  "completion_of p =
     (case p of Pending \<Rightarrow> Waiting | Resolved r \<Rightarrow> Returned r | Rejected e \<Rightarrow> Threw e)"

text \<open>A wait in progress: the promise is pending, the consumer delivers, the timer is set.\<close>

definition armed_one :: "'v waiting \<Rightarrow> bool" where
  "armed_one w = (w_promise w = Pending \<and> running (w_helper w) \<and> w_timer w \<noteq> None)"

definition armed_many :: "'v collecting \<Rightarrow> bool" where
  "armed_many c = (c_promise c = Pending \<and> running (c_helper c) \<and> c_timer c \<noteq> None)"

text \<open>
  What decides a multi-match wait that has accumulated \<open>acc\<close> and has the cap \<open>k\<close>: the
  timer, a candidate that raises, or the accepted candidate with which the length
  reaches the cap.
\<close>

datatype 'v gathered =
  Gathering "'v event list" | Deadline "'v event list" | Faulted error | Capped "'v event list"

fun gather ::
  "(string \<Rightarrow> error + 'v) \<Rightarrow> ('v \<Rightarrow> error + bool) option \<Rightarrow> int \<Rightarrow> 'v event list \<Rightarrow> input list
     \<Rightarrow> 'v gathered" where
  "gather parse filt k acc [] = Gathering acc"
| "gather parse filt k acc (TimerFires # is) = Deadline acc"
| "gather parse filt k acc (ConsumerFails e # is) = gather parse filt k acc is"
| "gather parse filt k acc (Message d # is) =
     (case judge parse filt d of
        Raises e \<Rightarrow> Faulted e
      | Skipped \<Rightarrow> gather parse filt k acc is
      | Accepted v \<Rightarrow>
          if k \<le> int (length acc) + 1 then Capped (acc @ [mk_event d v])
          else gather parse filt k (acc @ [mk_event d v]) is)"

definition settle_many :: "client \<Rightarrow> 'v gathered \<Rightarrow> 'v event list promise" where
  "settle_many cl g =
     (case g of
        Gathering acc \<Rightarrow> Pending
      | Deadline acc \<Rightarrow> Resolved acc
      | Faulted e \<Rightarrow> if stop_completes cl then Rejected e else Pending
      | Capped evs \<Rightarrow> if stop_completes cl then Resolved evs else Pending)"

text \<open>The events of the accepted candidates of a list of deliveries, in their order.\<close>

fun satisfying ::
  "(string \<Rightarrow> error + 'v) \<Rightarrow> ('v \<Rightarrow> error + bool) option \<Rightarrow> payload list \<Rightarrow> 'v event list" where
  "satisfying parse filt [] = []"
| "satisfying parse filt (d # ds) =
     (case judge parse filt d of
        Accepted v \<Rightarrow> mk_event d v # satisfying parse filt ds
      | _ \<Rightarrow> satisfying parse filt ds)"

text \<open>
  The deliveries of a sequence of events; the deliveries that a wait handles before its
  timer, up to the time \<open>now\<close>; and the identity of a delivery.
\<close>

fun payloads :: "input list \<Rightarrow> payload list" where
  "payloads [] = []"
| "payloads (Message d # is) = d # payloads is"
| "payloads (TimerFires # is) = payloads is"
| "payloads (ConsumerFails e # is) = payloads is"

definition observed :: "nat \<Rightarrow> nat \<Rightarrow> timeline \<Rightarrow> payload list" where
  "observed delay now tml = payloads (early delay now tml)"



section \<open>The message stream\<close>

text \<open>
  Modelled from the spec: the Message Stream collaborator, the broker behind kafkajs,
  which is not part of the repository. Its interface is
  \<^verbatim>\<open>subscribe(topic, consumerGroupId, fromOrigin) -> stream of Event\<close>, and
  earliest-origin is "subscribing from the oldest retained message rather than only new
  arrivals". \<open>retained\<close> are the messages of the topic published before the subscription,
  \<open>later\<close> those published after it, each with the time at which the consumer delivers it.
\<close>

definition stream_from ::
  "bool \<Rightarrow> (nat \<times> payload) list \<Rightarrow> (nat \<times> payload) list \<Rightarrow> timeline" where
  "stream_from fromBeginning retained later =
     map (\<lambda>y. (fst y, Delivers (snd y))) ((if fromBeginning then retained else []) @ later)"


section \<open>Concrete inputs\<close>

text \<open>A connected helper that has done nothing yet.\<close>

definition fresh :: helper where
  "fresh = \<lparr>isConnected = True, running = False, subscriptions = [], subscribe_calls = 0,
            stop_calls = 0, sent = [], logs = []\<rparr>"

text \<open>
  Three clients. \<open>kafkajs\<close> behaves as kafkajs does where the helper depends on it: its
  \<^verbatim>\<open>subscribe\<close> refuses the empty topic (the text of its error is not modelled) and
  accepts any other, its \<^verbatim>\<open>send\<close> succeeds, and its \<^verbatim>\<open>stop\<close>, awaited inside the handler,
  never completes. \<open>test_double\<close> differs in that its \<^verbatim>\<open>stop\<close> completes at once.
  \<open>flaky\<close> is \<open>kafkajs\<close> with a first \<^verbatim>\<open>subscribe\<close> that fails.
\<close>

definition kafkajs :: client where
  "kafkajs =
     \<lparr>subscribe_answer = (\<lambda>n topic. if topic = [] then Some (Error ''invalid topic'') else None),
      send_answer = (\<lambda>n. None),
      stop_completes = False\<rparr>"

definition test_double :: client where
  "test_double = kafkajs\<lparr>stop_completes := True\<rparr>"

definition flaky :: client where
  "flaky =
     kafkajs\<lparr>subscribe_answer :=
               (\<lambda>n topic. if n = 0 then Some (Error ''disconnected'') else None)\<rparr>"

definition no_options :: "'v options" where
  "no_options = \<lparr>opt_filter = None, opt_timeout = None, opt_fromBeginning = None,
                 opt_maxMessages = None\<rparr>"

text \<open>
  A small decoder for the examples: values are natural numbers written in unary, so
  \<open>''111''\<close> decodes to \<open>3\<close>, and any other text is a syntax error.
\<close>

definition parse_unary :: "string \<Rightarrow> error + nat" where
  "parse_unary s =
     (if list_all (\<lambda>c. c = CHR ''1'') s then Inr (length s)
      else Inl (SyntaxError ''Unexpected token''))"

definition stringify_unary :: "nat \<Rightarrow> error + string" where
  "stringify_unary n = Inr (replicate n (CHR ''1''))"

definition msg_at :: "nat \<Rightarrow> string \<Rightarrow> payload" where
  "msg_at off s =
     \<lparr>p_topic = ''t'', p_partition = 0,
      p_message = \<lparr>msg_key = None, msg_value = Some s, msg_offset = off, msg_timestamp = 0\<rparr>\<rparr>"

text \<open>
  Filters for the examples: \<open>only n\<close> accepts the value \<open>n\<close>; \<open>touchy\<close> accepts \<open>3\<close> and
  raises on \<open>0\<close>.
\<close>

definition only :: "nat \<Rightarrow> nat \<Rightarrow> error + bool" where
  "only n v = Inr (v = n)"

definition touchy :: "nat \<Rightarrow> error + bool" where
  "touchy v = (if v = 0 then Inl (Error ''filter failed'') else Inr (v = 3))"

definition with_filter :: "('v \<Rightarrow> error + bool) \<Rightarrow> 'v options" where
  "with_filter f = no_options\<lparr>opt_filter := Some f\<rparr>"

text \<open>Numbers for the examples: the only number is \<open>0\<close>, which is falsy and prints as \<open>0\<close>.\<close>

definition only_zero :: "unit number_ops" where
  "only_zero = \<lparr>number_falsy = (\<lambda>n. True), number_String = (\<lambda>n. ''0'')\<rparr>"

section \<open>Facts about a single-match wait\<close>

lemmas helper_defs =
  logger_info_def logger_warn_def logger_error_def consumer_subscribe_def consumer_run_def
  consumer_stop_def resolve_def reject_def

lemmas time_defs = schedule_def early_def late_def timer_delay_def

lemmas one_defs =
  consumeMessage_def consumeMessage_arm_def consumeMessage_finish_def step_one_def
  eachMessage_one_def timeout_one_def catch_one_def matched_one_def decode_def mk_event_def
  timeout_of_def fromBeginning_of_def

lemmas many_defs =
  consumeMessages_def consumeMessages_arm_def consumeMessages_finish_def step_many_def
  eachMessage_many_def timeout_many_def catch_many_def push_many_def maxMessages_of_def

lemmas example_defs =
  fresh_def kafkajs_def test_double_def flaky_def no_options_def parse_unary_def msg_at_def
  only_def touchy_def with_filter_def stringify_unary_def only_zero_def

declare show_nat.simps [simp del]

text \<open>A settled promise stays as it is, whatever happens later.\<close>

lemma step_one_settled:
  "w_promise w \<noteq> Pending \<Longrightarrow> w_promise (step_one cl parse filt topic i w) = w_promise w"
  by (cases "w_promise w")
     (auto simp: step_one_def eachMessage_one_def timeout_one_def catch_one_def matched_one_def
        resolve_def reject_def Let_def split: input.splits option.splits sum.splits)

lemma run_one_settled:
  "w_promise w \<noteq> Pending \<Longrightarrow> w_promise (run_one cl parse filt topic is w) = w_promise w"
  by (induction "is" arbitrary: w) (simp_all add: step_one_settled)

lemma run_one_append:
  "run_one cl parse filt topic (xs @ ys) w
     = run_one cl parse filt topic ys (run_one cl parse filt topic xs w)"
  by (induction xs arbitrary: w) simp_all

text \<open>Once \<^verbatim>\<open>stop\<close> was called and the timer is gone, no callback runs any more.\<close>

lemma step_one_idle:
  "\<not> running (w_helper w) \<Longrightarrow> w_timer w = None \<Longrightarrow> step_one cl parse filt topic i w = w"
  by (simp add: step_one_def split: input.splits)

lemma run_one_idle:
  "\<not> running (w_helper w) \<Longrightarrow> w_timer w = None \<Longrightarrow> run_one cl parse filt topic is w = w"
  by (induction "is") (simp_all add: step_one_idle)

text \<open>One event, handled by a wait in progress.\<close>

lemma step_one_quiet:
  assumes "armed_one w" and "quiet parse filt i"
  shows "armed_one (step_one cl parse filt topic i w)
         \<and> stop_calls (w_helper (step_one cl parse filt topic i w)) = stop_calls (w_helper w)"
  using assms
  by (auto simp: armed_one_def quiet_def judge_def step_one_def eachMessage_one_def
        logger_info_def Let_def
        split: input.splits option.splits sum.splits if_splits verdict.splits)

lemma step_one_raises:
  assumes "armed_one w" and "judge parse filt d = Raises e"
  shows "w_promise (step_one cl parse filt topic (Message d) w)
           = (if stop_completes cl then Rejected e else Pending)
         \<and> \<not> running (w_helper (step_one cl parse filt topic (Message d) w))
         \<and> w_timer (step_one cl parse filt topic (Message d) w) = None
         \<and> stop_calls (w_helper (step_one cl parse filt topic (Message d) w))
             = Suc (stop_calls (w_helper w))"
  using assms
  by (auto simp: armed_one_def judge_def step_one_def eachMessage_one_def catch_one_def
        matched_one_def reject_def consumer_stop_def logger_info_def Let_def
        split: option.splits sum.splits if_splits)

lemma step_one_accepted:
  assumes "armed_one w" and "judge parse filt d = Accepted v"
  shows "w_promise (step_one cl parse filt topic (Message d) w)
           = (if stop_completes cl then Resolved (Some (mk_event d v)) else Pending)
         \<and> \<not> running (w_helper (step_one cl parse filt topic (Message d) w))
         \<and> w_timer (step_one cl parse filt topic (Message d) w) = None
         \<and> stop_calls (w_helper (step_one cl parse filt topic (Message d) w))
             = Suc (stop_calls (w_helper w))"
  using assms
  by (auto simp: armed_one_def judge_def step_one_def eachMessage_one_def catch_one_def
        matched_one_def resolve_def consumer_stop_def logger_info_def Let_def
        split: option.splits sum.splits if_splits)

lemma step_one_timer:
  "armed_one w \<Longrightarrow> w_promise (step_one cl parse filt topic TimerFires w) = Resolved None"
  by (auto simp: armed_one_def step_one_def timeout_one_def resolve_def)

lemma run_one_quiet:
  "armed_one w \<Longrightarrow> \<forall>i\<in>set is. quiet parse filt i \<Longrightarrow>
   armed_one (run_one cl parse filt topic is w)
   \<and> stop_calls (w_helper (run_one cl parse filt topic is w)) = stop_calls (w_helper w)"
proof (induction "is" arbitrary: w)
  case Nil
  then show ?case by simp
next
  case (Cons i "is")
  from Cons.prems
    step_one_quiet [where w = w and i = i and parse = parse and filt = filt and cl = cl
                      and topic = topic]
  have "armed_one (step_one cl parse filt topic i w)"
    and "stop_calls (w_helper (step_one cl parse filt topic i w)) = stop_calls (w_helper w)"
    by simp_all
  with Cons show ?case by simp
qed

text \<open>The promise of a wait in progress is settled by the first decisive event.\<close>

lemma run_one_decides:
  "armed_one w \<Longrightarrow>
   w_promise (run_one cl parse filt topic is w) = settle_one cl (first_decisive parse filt is)"
proof (induction "is" arbitrary: w)
  case Nil
  then show ?case by (simp add: armed_one_def settle_one_def)
next
  case (Cons i "is")
  show ?case
  proof (cases i)
    case TimerFires
    with Cons.prems show ?thesis
      by (simp add: run_one_settled step_one_timer settle_one_def)
  next
    case (ConsumerFails e)
    with Cons show ?thesis by (simp add: step_one_def)
  next
    case (Message d)
    show ?thesis
    proof (cases "judge parse filt d")
      case (Raises e)
      from step_one_raises [OF Cons.prems Raises, of cl topic]
      show ?thesis by (simp add: Message Raises run_one_idle settle_one_def)
    next
      case (Accepted v)
      from step_one_accepted [OF Cons.prems Accepted, of cl topic]
      show ?thesis by (simp add: Message Accepted run_one_idle settle_one_def)
    next
      case Skipped
      then have "quiet parse filt (Message d)" by (simp add: quiet_def)
      from step_one_quiet [OF Cons.prems this, of cl topic]
      show ?thesis by (simp add: Message Skipped Cons.IH)
    qed
  qed
qed

lemma fst_consumeMessage_finish:
  "fst (consumeMessage_finish topic w) = completion_of (w_promise w)"
  by (simp add: consumeMessage_finish_def completion_of_def split: promise.splits)

lemma consumeMessage_arm_ok:
  assumes "isConnected h" and "subscribe_answer cl (subscribe_calls h) topic = None"
  shows "\<exists>w. consumeMessage_arm cl h topic opts = Inr w \<and> armed_one w
           \<and> subscriptions (w_helper w) = subscriptions h @ [(topic, fromBeginning_of opts)]
           \<and> subscribe_calls (w_helper w) = Suc (subscribe_calls h)
           \<and> stop_calls (w_helper w) = stop_calls h
           \<and> w_timer w = Some (timeout_of opts)"
  using assms
  by (simp add: consumeMessage_arm_def consumer_subscribe_def logger_info_def consumer_run_def
      armed_one_def)

lemma consumeMessage_result:
  assumes "isConnected h" and "subscribe_answer cl (subscribe_calls h) topic = None"
  shows "fst (consumeMessage cl parse h topic opts tml now)
           = completion_of (settle_one cl (first_decisive parse (opt_filter opts)
               (schedule (timer_delay (timeout_of opts)) now tml)))"
proof -
  from assms consumeMessage_arm_ok [where h = h and cl = cl and topic = topic and opts = opts]
  obtain w where "consumeMessage_arm cl h topic opts = Inr w" and "armed_one w"
    by blast
  then show ?thesis
    by (simp add: consumeMessage_def fst_consumeMessage_finish run_one_decides)
qed

lemma consumeMessage_not_connected:
  "\<not> isConnected h \<Longrightarrow> consumeMessage cl parse h topic opts tml now = (Threw not_connected, h)"
  by (simp add: consumeMessage_def consumeMessage_arm_def)

lemma consumeMessage_subscribe_fails:
  assumes "isConnected h" and "subscribe_answer cl (subscribe_calls h) topic = Some e"
  shows "fst (consumeMessage cl parse h topic opts tml now) = Threw e
         \<and> subscribe_calls (snd (consumeMessage cl parse h topic opts tml now))
             = Suc (subscribe_calls h)
         \<and> running (snd (consumeMessage cl parse h topic opts tml now)) = running h
         \<and> subscriptions (snd (consumeMessage cl parse h topic opts tml now)) = subscriptions h
         \<and> last (logs (snd (consumeMessage cl parse h topic opts tml now)))
             = (Err, ''Failed to consume message from topic: '' @ topic)"
  using assms
  by (simp add: consumeMessage_def consumeMessage_arm_def consumer_subscribe_def
      logger_info_def logger_error_def)

text \<open>Events before the decisive one.\<close>

lemma first_decisive_quiet:
  "\<forall>i\<in>set qs. quiet parse filt i \<Longrightarrow>
   first_decisive parse filt (qs @ rest) = first_decisive parse filt rest"
proof (induction qs)
  case Nil
  then show ?case by simp
next
  case (Cons i qs)
  then show ?case
    by (cases i) (auto simp: quiet_def split: verdict.splits)
qed

lemma first_decisive_TimedOut:
  "first_decisive parse filt is = TimedOut \<Longrightarrow>
   \<exists>qs rest. is = qs @ TimerFires # rest \<and> (\<forall>i\<in>set qs. quiet parse filt i)"
proof (induction parse filt "is" rule: first_decisive.induct)
  case (1 parse filt)
  then show ?case by simp
next
  case (2 parse filt "is")
  have "TimerFires # is = [] @ TimerFires # is" by simp
  then show ?case by (metis empty_iff list.set(1))
next
  case (3 parse filt e "is")
  then obtain qs rest where
    *: "is = qs @ TimerFires # rest" "\<forall>i\<in>set qs. quiet parse filt i"
    by auto
  have "ConsumerFails e # is = (ConsumerFails e # qs) @ TimerFires # rest"
    using * by simp
  moreover have "\<forall>i\<in>set (ConsumerFails e # qs). quiet parse filt i"
    using * by (simp add: quiet_def)
  ultimately show ?case by blast
next
  case (4 parse filt d "is")
  show ?case
  proof (cases "judge parse filt d")
    case Skipped
    with 4 obtain qs rest where
      *: "is = qs @ TimerFires # rest" "\<forall>i\<in>set qs. quiet parse filt i"
      by auto
    have "Message d # is = (Message d # qs) @ TimerFires # rest"
      using * by simp
    moreover have "\<forall>i\<in>set (Message d # qs). quiet parse filt i"
      using * Skipped by (simp add: quiet_def)
    ultimately show ?thesis by blast
  qed (use 4 in simp_all)
qed

lemma first_decisive_Matched:
  "first_decisive parse filt is = Matched ev \<Longrightarrow>
   \<exists>qs d v rest. is = qs @ Message d # rest
      \<and> (\<forall>i\<in>set qs. quiet parse filt i)
      \<and> judge parse filt d = Accepted v \<and> ev = mk_event d v"
proof (induction parse filt "is" rule: first_decisive.induct)
  case (1 parse filt)
  then show ?case by simp
next
  case (2 parse filt "is")
  then show ?case by simp
next
  case (3 parse filt e "is")
  then obtain qs d v rest where
    *: "is = qs @ Message d # rest" "\<forall>i\<in>set qs. quiet parse filt i"
       "judge parse filt d = Accepted v" "ev = mk_event d v"
    by auto
  have "ConsumerFails e # is = (ConsumerFails e # qs) @ Message d # rest"
    using * by simp
  moreover have "\<forall>i\<in>set (ConsumerFails e # qs). quiet parse filt i"
    using * by (simp add: quiet_def)
  ultimately show ?case using * by blast
next
  case (4 parse filt d "is")
  show ?case
  proof (cases "judge parse filt d")
    case Skipped
    with 4 obtain qs d' v rest where
      *: "is = qs @ Message d' # rest" "\<forall>i\<in>set qs. quiet parse filt i"
         "judge parse filt d' = Accepted v" "ev = mk_event d' v"
      by auto
    have "Message d # is = (Message d # qs) @ Message d' # rest"
      using * by simp
    moreover have "\<forall>i\<in>set (Message d # qs). quiet parse filt i"
      using * Skipped by (simp add: quiet_def)
    ultimately show ?thesis using * by blast
  next
    case (Accepted v)
    with 4 have "ev = mk_event d v" by simp
    moreover have "Message d # is = [] @ Message d # is" by simp
    ultimately show ?thesis using Accepted by (metis empty_iff list.set(1))
  qed (use 4 in simp_all)
qed

text \<open>The events handled before the timer, for a timeline cut at a happening.\<close>

lemma early_append:
  "early delay now (xs @ ys) = early delay now xs @ early delay now ys"
  by (simp add: early_def)

lemma early_Cons_in:
  "t < delay \<Longrightarrow> t \<le> now \<Longrightarrow> early delay now ((t, x) # ys) = event_of x # early delay now ys"
  by (simp add: early_def)

lemma turned_down_imp_quiet:
  "turned_down parse filt i \<Longrightarrow> quiet parse filt i"
  by (cases i) (simp_all add: turned_down_def quiet_def)

lemma early_turned_down:
  "\<forall>y\<in>set pre. turned_down parse filt (event_of (snd y)) \<Longrightarrow>
   \<forall>i\<in>set (early delay now pre). quiet parse filt i"
  by (fastforce simp: early_def intro: turned_down_imp_quiet)

lemma completion_of_Returned:
  "completion_of p = Returned r \<longleftrightarrow> p = Resolved r"
  by (simp add: completion_of_def split: promise.splits)

lemma settle_one_null:
  "settle_one cl dec = Resolved None \<longleftrightarrow> dec = TimedOut"
  by (simp add: settle_one_def split: decision.splits)

lemma settle_one_event:
  "settle_one cl dec = Resolved (Some ev) \<longleftrightarrow> stop_completes cl \<and> dec = Matched ev"
  by (simp add: settle_one_def split: decision.splits)

lemma fst_consumeMessage_Returned:
  assumes "fst (consumeMessage cl parse h topic opts tml now) = Returned r"
  shows "isConnected h \<and> subscribe_answer cl (subscribe_calls h) topic = None
         \<and> settle_one cl (first_decisive parse (opt_filter opts)
              (schedule (timer_delay (timeout_of opts)) now tml)) = Resolved r"
proof -
  have c: "isConnected h"
    using assms consumeMessage_not_connected [of h cl parse topic opts tml now] by fastforce
  have s: "subscribe_answer cl (subscribe_calls h) topic = None"
  proof (cases "subscribe_answer cl (subscribe_calls h) topic")
    case (Some e)
    with c assms
      consumeMessage_subscribe_fails
        [where h = h and cl = cl and e = e and parse = parse and topic = topic
           and opts = opts and tml = tml and now = now]
    show ?thesis by simp
  qed simp
  from c s assms show ?thesis
    by (simp add: consumeMessage_result completion_of_Returned)
qed

text \<open>
  A wait in progress that meets a decisive candidate: the state it is left in, which
  nothing that follows changes.
\<close>

lemma consumeMessage_decisive:
  assumes "isConnected h" and "subscribe_answer cl (subscribe_calls h) topic = None"
    and "\<forall>y\<in>set pre. turned_down parse (opt_filter opts) (event_of (snd y))"
    and "t < timer_delay (timeout_of opts)" and "t \<le> now"
    and "judge parse (opt_filter opts) d \<noteq> Skipped"
  shows "\<not> running (snd (consumeMessage cl parse h topic opts (pre @ (t, Delivers d) # post) now))
       \<and> stop_calls (snd (consumeMessage cl parse h topic opts
                              (pre @ (t, Delivers d) # post) now))
           = Suc (stop_calls h)
       \<and> consumeMessage cl parse h topic opts (pre @ (t, Delivers d) # post) now
           = consumeMessage cl parse h topic opts (pre @ [(t, Delivers d)]) now"
proof -
  let ?delay = "timer_delay (timeout_of opts)"
  let ?filt = "opt_filter opts"
  from assms(1,2)
    consumeMessage_arm_ok [where h = h and cl = cl and topic = topic and opts = opts]
  obtain w where arm: "consumeMessage_arm cl h topic opts = Inr w" and w: "armed_one w"
    and sc: "stop_calls (w_helper w) = stop_calls h"
    by blast
  define w1 where "w1 = run_one cl parse ?filt topic (early ?delay now pre) w"
  define w2 where "w2 = step_one cl parse ?filt topic (Message d) w1"
  from early_turned_down [OF assms(3)]
  have q: "\<forall>i\<in>set (early ?delay now pre). quiet parse ?filt i" .
  from run_one_quiet [OF w q, of cl topic]
  have w1: "armed_one w1" "stop_calls (w_helper w1) = stop_calls h"
    by (simp_all add: w1_def sc)
  have w2c: "\<not> running (w_helper w2) \<and> w_timer w2 = None
             \<and> stop_calls (w_helper w2) = Suc (stop_calls h)"
  proof (cases "judge parse ?filt d")
    case (Raises e)
    from step_one_raises [OF w1(1) Raises, of cl topic] w1(2)
    show ?thesis by (simp add: w2_def)
  next
    case (Accepted v)
    from step_one_accepted [OF w1(1) Accepted, of cl topic] w1(2)
    show ?thesis by (simp add: w2_def)
  next
    case Skipped
    with assms(6) show ?thesis by simp
  qed
  then have w2: "\<not> running (w_helper w2)" "w_timer w2 = None"
    "stop_calls (w_helper w2) = Suc (stop_calls h)"
    by simp_all
  have run: "run_one cl parse ?filt topic (schedule ?delay now (pre @ (t, Delivers d) # post)) w
               = w2" for post
    using assms(4,5)
    by (simp add: schedule_def early_append early_Cons_in run_one_append w1_def [symmetric]
        w2_def [symmetric] run_one_idle w2)
  have fin: "consumeMessage cl parse h topic opts (pre @ (t, Delivers d) # post) now
               = consumeMessage_finish topic w2" for post
    by (simp add: consumeMessage_def arm run)
  have snd_fin: "running (snd (consumeMessage_finish topic w2)) = running (w_helper w2)"
    "stop_calls (snd (consumeMessage_finish topic w2)) = stop_calls (w_helper w2)"
    by (simp_all add: consumeMessage_finish_def logger_error_def split: promise.splits)
  show ?thesis
    by (simp add: fin snd_fin w2)
qed

lemma first_decisive_cut:
  assumes "\<forall>y\<in>set pre. turned_down parse filt (event_of (snd y))"
    and "t < delay" and "t \<le> now" and "judge parse filt d \<noteq> Skipped"
  shows "first_decisive parse filt (schedule delay now (pre @ (t, Delivers d) # post))
           = (case judge parse filt d of
                Raises e \<Rightarrow> Failed e
              | Accepted v \<Rightarrow> Matched (mk_event d v)
              | Skipped \<Rightarrow> Undecided)"
proof -
  from early_turned_down [OF assms(1)]
  have q: "\<forall>i\<in>set (early delay now pre). quiet parse filt i" .
  show ?thesis
    using assms(2,3,4)
    by (cases "judge parse filt d")
       (simp_all add: schedule_def early_append early_Cons_in first_decisive_quiet [OF q])
qed

lemma consumeMessage_thrown_logged:
  assumes "isConnected h" and "fst (consumeMessage cl parse h topic opts tml now) = Threw e"
  shows "last (logs (snd (consumeMessage cl parse h topic opts tml now)))
           = (Err, ''Failed to consume message from topic: '' @ topic)"
  using assms
  by (auto simp: consumeMessage_def consumeMessage_arm_def consumer_subscribe_def
        consumeMessage_finish_def logger_error_def Let_def
        split: option.splits promise.splits)

section \<open>Claims about consumeMessage\<close>

text \<open>
  C1 (as the code has it). When a candidate fails to decode, or the filter raises on
  it, while the wait is in progress (what came before it was decoded and turned down by
  the filter, and its time is before the delay of the timer), the wait ends there: the
  timer is cleared and \<^verbatim>\<open>stop\<close> is called, nothing that happens later is observed, so
  that the outcome and the helper are the same as if the faulty candidate had been the
  last happening. The call throws that error, logged by the outer handler, when the
  awaited \<^verbatim>\<open>stop\<close> completes; otherwise it stays pending. In no case is the candidate
  skipped.
\<close>

theorem C1_faulty_candidate_ends_wait:
  assumes "isConnected h" and "subscribe_answer cl (subscribe_calls h) topic = None"
    and "\<forall>y\<in>set pre. turned_down parse (opt_filter opts) (event_of (snd y))"
    and "t < timer_delay (timeout_of opts)" and "t \<le> now"
    and "judge parse (opt_filter opts) d = Raises e"
  shows "fst (consumeMessage cl parse h topic opts (pre @ (t, Delivers d) # post) now)
           = (if stop_completes cl then Threw e else Waiting)
       \<and> \<not> running (snd (consumeMessage cl parse h topic opts
                            (pre @ (t, Delivers d) # post) now))
       \<and> stop_calls (snd (consumeMessage cl parse h topic opts
                            (pre @ (t, Delivers d) # post) now))
           = Suc (stop_calls h)
       \<and> (stop_completes cl \<longrightarrow>
            last (logs (snd (consumeMessage cl parse h topic opts
                               (pre @ (t, Delivers d) # post) now)))
              = (Err, ''Failed to consume message from topic: '' @ topic))
       \<and> consumeMessage cl parse h topic opts (pre @ (t, Delivers d) # post) now
           = consumeMessage cl parse h topic opts (pre @ [(t, Delivers d)]) now"
proof -
  have ns: "judge parse (opt_filter opts) d \<noteq> Skipped"
    using assms(6) by simp
  have r: "fst (consumeMessage cl parse h topic opts (pre @ (t, Delivers d) # post) now)
           = (if stop_completes cl then Threw e else Waiting)"
    using assms(6)
    by (simp add: consumeMessage_result [OF assms(1,2)]
        first_decisive_cut [OF assms(3,4,5) ns] settle_one_def completion_of_def)
  from consumeMessage_decisive [OF assms(1,2,3,4,5) ns]
  have s: "\<not> running (snd (consumeMessage cl parse h topic opts
                            (pre @ (t, Delivers d) # post) now))"
    "stop_calls (snd (consumeMessage cl parse h topic opts
                            (pre @ (t, Delivers d) # post) now))
           = Suc (stop_calls h)"
    "consumeMessage cl parse h topic opts (pre @ (t, Delivers d) # post) now
           = consumeMessage cl parse h topic opts (pre @ [(t, Delivers d)]) now"
    by blast+
  have l: "stop_completes cl \<longrightarrow>
            last (logs (snd (consumeMessage cl parse h topic opts
                               (pre @ (t, Delivers d) # post) now)))
              = (Err, ''Failed to consume message from topic: '' @ topic)"
  proof
    assume "stop_completes cl"
    with r have "fst (consumeMessage cl parse h topic opts (pre @ (t, Delivers d) # post) now)
                   = Threw e"
      by simp
    from consumeMessage_thrown_logged [OF assms(1) this]
    show "last (logs (snd (consumeMessage cl parse h topic opts
                               (pre @ (t, Delivers d) # post) now)))
              = (Err, ''Failed to consume message from topic: '' @ topic)" .
  qed
  from r s l show ?thesis by blast
qed

theorem C1_witness:
  "fst (consumeMessage kafkajs parse_unary fresh ''t'' (with_filter touchy)
          ([(10, Delivers (msg_at 0 ''1''))] @ (20, Delivers (msg_at 1 []))
             # [(30, Delivers (msg_at 2 ''111''))]) 20000)
     = Waiting
   \<and> fst (consumeMessage test_double parse_unary fresh ''t'' (with_filter touchy)
          ([(10, Delivers (msg_at 0 ''1''))] @ (20, Delivers (msg_at 1 []))
             # [(30, Delivers (msg_at 2 ''111''))]) 20000)
     = Threw (Error ''filter failed'')
   \<and> stop_calls (snd (consumeMessage kafkajs parse_unary fresh ''t'' (with_filter touchy)
          ([(10, Delivers (msg_at 0 ''1''))] @ (20, Delivers (msg_at 1 []))
             # [(30, Delivers (msg_at 2 ''111''))]) 20000))
     = Suc (stop_calls fresh)"
proof -
  have 1: "isConnected fresh" by (simp add: fresh_def)
  have 2: "subscribe_answer kafkajs (subscribe_calls fresh) ''t'' = None"
    "subscribe_answer test_double (subscribe_calls fresh) ''t'' = None"
    by (simp_all add: kafkajs_def test_double_def)
  have 3: "\<forall>y\<in>set [(10, Delivers (msg_at 0 ''1''))].
             turned_down parse_unary (opt_filter (with_filter touchy)) (event_of (snd y))"
    by (simp add: turned_down_def judge_def decode_def example_defs)
  have 4: "(20::nat) < timer_delay (timeout_of (with_filter touchy))"
    by (simp add: timer_delay_def timeout_of_def with_filter_def no_options_def)
  have 5: "(20::nat) \<le> 20000" by simp
  have 6: "judge parse_unary (opt_filter (with_filter touchy)) (msg_at 1 [])
             = Raises (Error ''filter failed'')"
    by (simp add: judge_def decode_def example_defs)
  have k: "\<not> stop_completes kafkajs" "stop_completes test_double"
    by (simp_all add: kafkajs_def test_double_def)
  note i1 = C1_faulty_candidate_ends_wait
         [where cl = kafkajs and topic = "''t''", OF 1 2(1) 3 4 5 6,
          of "[(30, Delivers (msg_at 2 ''111''))]"]
  note i2 = C1_faulty_candidate_ends_wait
         [where cl = test_double and topic = "''t''", OF 1 2(2) 3 4 5 6,
          of "[(30, Delivers (msg_at 2 ''111''))]"]
  have a: "fst (consumeMessage kafkajs parse_unary fresh ''t'' (with_filter touchy)
          ([(10, Delivers (msg_at 0 ''1''))] @ (20, Delivers (msg_at 1 []))
             # [(30, Delivers (msg_at 2 ''111''))]) 20000)
     = Waiting"
    using i1 [THEN conjunct1] k by simp
  have c: "stop_calls (snd (consumeMessage kafkajs parse_unary fresh ''t'' (with_filter touchy)
          ([(10, Delivers (msg_at 0 ''1''))] @ (20, Delivers (msg_at 1 []))
             # [(30, Delivers (msg_at 2 ''111''))]) 20000))
     = Suc (stop_calls fresh)"
    using i1 [THEN conjunct2, THEN conjunct2, THEN conjunct1] by simp
  have b: "fst (consumeMessage test_double parse_unary fresh ''t'' (with_filter touchy)
          ([(10, Delivers (msg_at 0 ''1''))] @ (20, Delivers (msg_at 1 []))
             # [(30, Delivers (msg_at 2 ''111''))]) 20000)
     = Threw (Error ''filter failed'')"
    using i2 [THEN conjunct1] k by simp
  from a b c show ?thesis by (intro conjI)
qed

text \<open>
  The claim as stated fails: after an undecodable candidate the matching one that
  follows is not observed. With kafkajs the call stays pending, \<^verbatim>\<open>stop\<close> having been
  called once, and with a client whose \<^verbatim>\<open>stop\<close> completes it throws; in both cases the
  helper is left as if the stream had ended with the undecodable candidate.
\<close>

theorem C1_counterexample:
  "fst (consumeMessage kafkajs parse_unary fresh ''t'' no_options
          [(10, Delivers (msg_at 0 ''x'')), (20, Delivers (msg_at 1 ''11''))] 20000)
     = Waiting
   \<and> stop_calls (snd (consumeMessage kafkajs parse_unary fresh ''t'' no_options
          [(10, Delivers (msg_at 0 ''x'')), (20, Delivers (msg_at 1 ''11''))] 20000))
     = 1
   \<and> consumeMessage kafkajs parse_unary fresh ''t'' no_options
          [(10, Delivers (msg_at 0 ''x'')), (20, Delivers (msg_at 1 ''11''))] 20000
     = consumeMessage kafkajs parse_unary fresh ''t'' no_options
          [(10, Delivers (msg_at 0 ''x''))] 20000
   \<and> fst (consumeMessage test_double parse_unary fresh ''t'' no_options
          [(10, Delivers (msg_at 0 ''x'')), (20, Delivers (msg_at 1 ''11''))] 20000)
     = Threw (SyntaxError ''Unexpected token'')"
  by (simp add: one_defs helper_defs time_defs example_defs)

text \<open>
  C3 (as the code has it). When every event that a wait observes before its deadline is
  a candidate that is decoded and turned down by the filter without an exception, or a
  failure of the consumer, the call stays pending until the deadline, which is the
  delay that \<^verbatim>\<open>setTimeout\<close> applies to the caller's timeout, and returns null then; it
  raises no error for "no match", and none for the failure of the consumer. A helper
  that is not connected and a subscription that fails make the call throw. A candidate
  that raises while the wait is in progress is never turned into the timeout result:
  the call throws its error when the awaited \<^verbatim>\<open>stop\<close> completes, and stays pending
  otherwise. Whenever the call returns null, the helper was connected, the subscription
  succeeded, the timer fired, and no candidate handled before it raised or was
  accepted.
\<close>

theorem C3_null_at_the_deadline_and_errors:
  "(isConnected h \<and> subscribe_answer cl (subscribe_calls h) topic = None
      \<and> (\<forall>i\<in>set (early (timer_delay (timeout_of opts)) now tml).
            quiet parse (opt_filter opts) i)
      \<longrightarrow> fst (consumeMessage cl parse h topic opts tml now)
            = (if timer_delay (timeout_of opts) \<le> now then Returned None else Waiting))
   \<and> (\<not> isConnected h
      \<longrightarrow> fst (consumeMessage cl parse h topic opts tml now) = Threw not_connected)
   \<and> (isConnected h \<and> subscribe_answer cl (subscribe_calls h) topic = Some e'
      \<longrightarrow> fst (consumeMessage cl parse h topic opts tml now) = Threw e')
   \<and> (isConnected h \<and> subscribe_answer cl (subscribe_calls h) topic = None
      \<and> (\<forall>y\<in>set pre. turned_down parse (opt_filter opts) (event_of (snd y)))
      \<and> t < timer_delay (timeout_of opts) \<and> t \<le> now
      \<and> judge parse (opt_filter opts) d = Raises e
      \<longrightarrow> fst (consumeMessage cl parse h topic opts (pre @ (t, Delivers d) # post) now)
            = (if stop_completes cl then Threw e else Waiting))
   \<and> (fst (consumeMessage cl parse h topic opts tml now) = Returned None
      \<longrightarrow> isConnected h \<and> subscribe_answer cl (subscribe_calls h) topic = None
          \<and> (\<exists>qs rest. schedule (timer_delay (timeout_of opts)) now tml = qs @ TimerFires # rest
                \<and> (\<forall>i\<in>set qs. quiet parse (opt_filter opts) i)))"
proof (intro conjI impI)
  assume a: "isConnected h \<and> subscribe_answer cl (subscribe_calls h) topic = None
      \<and> (\<forall>i\<in>set (early (timer_delay (timeout_of opts)) now tml).
            quiet parse (opt_filter opts) i)"
  then have q: "\<forall>i\<in>set (early (timer_delay (timeout_of opts)) now tml).
                  quiet parse (opt_filter opts) i"
    by simp
  from a show "fst (consumeMessage cl parse h topic opts tml now)
            = (if timer_delay (timeout_of opts) \<le> now then Returned None else Waiting)"
    by (simp add: consumeMessage_result schedule_def first_decisive_quiet [OF q]
        settle_one_def completion_of_def)
next
  assume "\<not> isConnected h"
  then show "fst (consumeMessage cl parse h topic opts tml now) = Threw not_connected"
    by (simp add: consumeMessage_not_connected)
next
  assume "isConnected h \<and> subscribe_answer cl (subscribe_calls h) topic = Some e'"
  then show "fst (consumeMessage cl parse h topic opts tml now) = Threw e'"
    using consumeMessage_subscribe_fails
      [where h = h and cl = cl and e = e' and parse = parse and topic = topic
         and opts = opts and tml = tml and now = now]
    by simp
next
  assume a: "isConnected h \<and> subscribe_answer cl (subscribe_calls h) topic = None
      \<and> (\<forall>y\<in>set pre. turned_down parse (opt_filter opts) (event_of (snd y)))
      \<and> t < timer_delay (timeout_of opts) \<and> t \<le> now
      \<and> judge parse (opt_filter opts) d = Raises e"
  then have ns: "judge parse (opt_filter opts) d \<noteq> Skipped" by simp
  from a have c: "isConnected h" "subscribe_answer cl (subscribe_calls h) topic = None"
    and p: "\<forall>y\<in>set pre. turned_down parse (opt_filter opts) (event_of (snd y))"
    and t: "t < timer_delay (timeout_of opts)" "t \<le> now"
    and j: "judge parse (opt_filter opts) d = Raises e"
    by simp_all
  show "fst (consumeMessage cl parse h topic opts (pre @ (t, Delivers d) # post) now)
            = (if stop_completes cl then Threw e else Waiting)"
    by (simp add: consumeMessage_result [OF c] first_decisive_cut [OF p t ns] j
        settle_one_def completion_of_def)
next
  assume r: "fst (consumeMessage cl parse h topic opts tml now) = Returned None"
  from fst_consumeMessage_Returned [OF r] show "isConnected h" by simp
  from fst_consumeMessage_Returned [OF r]
  show "subscribe_answer cl (subscribe_calls h) topic = None" by simp
  from fst_consumeMessage_Returned [OF r]
  have "first_decisive parse (opt_filter opts) (schedule (timer_delay (timeout_of opts)) now tml)
          = TimedOut"
    by (simp add: settle_one_null)
  then show "\<exists>qs rest. schedule (timer_delay (timeout_of opts)) now tml = qs @ TimerFires # rest
          \<and> (\<forall>i\<in>set qs. quiet parse (opt_filter opts) i)"
    by (rule first_decisive_TimedOut)
qed

theorem C3_witness:
  "fst (consumeMessage kafkajs parse_unary fresh ''t''
          ((with_filter (only 3))\<lparr>opt_timeout := Some 50\<rparr>)
          [(10, Delivers (msg_at 0 ''1'')), (60, Delivers (msg_at 5 ''111''))] 49)
     = Waiting
   \<and> fst (consumeMessage kafkajs parse_unary fresh ''t''
          ((with_filter (only 3))\<lparr>opt_timeout := Some 50\<rparr>)
          [(10, Delivers (msg_at 0 ''1'')), (60, Delivers (msg_at 5 ''111''))] 50)
     = Returned None
   \<and> fst (consumeMessage kafkajs parse_unary fresh ''t'' (with_filter (only 3))
          [(10, Delivers (msg_at 0 ''1''))] 9999)
     = Waiting
   \<and> fst (consumeMessage kafkajs parse_unary fresh ''t'' (with_filter (only 3))
          [(10, Delivers (msg_at 0 ''1''))] 10000)
     = Returned None
   \<and> fst (consumeMessage kafkajs parse_unary (fresh\<lparr>isConnected := False\<rparr>) ''t''
          (with_filter (only 3)) [] 10000)
     = Threw not_connected
   \<and> fst (consumeMessage flaky parse_unary fresh ''t'' (with_filter (only 3)) [] 10000)
     = Threw (Error ''disconnected'')
   \<and> fst (consumeMessage kafkajs parse_unary fresh ''t'' (with_filter (only 3))
          ([(10, Delivers (msg_at 0 ''1''))] @ (20, Delivers (msg_at 5 ''x'')) # []) 10000)
     = Waiting
   \<and> (\<exists>qs rest.
         schedule (timer_delay (timeout_of (with_filter (only 3)))) 10000
             [(10, Delivers (msg_at 0 ''1''))]
           = qs @ TimerFires # rest
         \<and> (\<forall>i\<in>set qs. quiet parse_unary (opt_filter (with_filter (only 3))) i))"
proof -
  let ?short = "(with_filter (only 3))\<lparr>opt_timeout := Some 50\<rparr>"
  let ?opts = "with_filter (only 3)"
  let ?two = "[(10, Delivers (msg_at 0 ''1'')), (60, Delivers (msg_at 5 ''111''))]"
  let ?one = "[(10::nat, Delivers (msg_at 0 ''1''))]"
  have 1: "isConnected fresh" by (simp add: fresh_def)
  have 2: "subscribe_answer kafkajs (subscribe_calls fresh) ''t'' = None"
    by (simp add: kafkajs_def)
  have d50: "timer_delay (timeout_of ?short) = 50"
    by (simp add: timer_delay_def timeout_of_def)
  have d: "timer_delay (timeout_of ?opts) = 10000"
    by (simp add: timer_delay_def timeout_of_def with_filter_def no_options_def)
  have j: "judge parse_unary (opt_filter ?opts) (msg_at 0 ''1'') = Skipped"
    "judge parse_unary (opt_filter ?opts) (msg_at 5 ''x'')
       = Raises (SyntaxError ''Unexpected token'')"
    by (simp_all add: judge_def decode_def example_defs)
  have e49: "\<forall>i\<in>set (early (timer_delay (timeout_of ?short)) 49 ?two).
               quiet parse_unary (opt_filter ?short) i"
    by (simp add: d50 early_def quiet_def j)
  have e50: "\<forall>i\<in>set (early (timer_delay (timeout_of ?short)) 50 ?two).
               quiet parse_unary (opt_filter ?short) i"
    by (simp add: d50 early_def quiet_def j)
  have e9999: "\<forall>i\<in>set (early (timer_delay (timeout_of ?opts)) 9999 ?one).
               quiet parse_unary (opt_filter ?opts) i"
    by (simp add: d early_def quiet_def j)
  have e10000: "\<forall>i\<in>set (early (timer_delay (timeout_of ?opts)) 10000 ?one).
               quiet parse_unary (opt_filter ?opts) i"
    by (simp add: d early_def quiet_def j)
  have a1: "fst (consumeMessage kafkajs parse_unary fresh ''t'' ?short ?two 49) = Waiting"
    using C3_null_at_the_deadline_and_errors
            [where cl = kafkajs and h = fresh and topic = "''t''" and opts = ?short
               and parse = parse_unary and tml = ?two and now = 49,
             THEN conjunct1, THEN mp, OF conjI [OF 1 conjI [OF 2 e49]]]
    by (simp add: d50)
  have a2: "fst (consumeMessage kafkajs parse_unary fresh ''t'' ?short ?two 50) = Returned None"
    using C3_null_at_the_deadline_and_errors
            [where cl = kafkajs and h = fresh and topic = "''t''" and opts = ?short
               and parse = parse_unary and tml = ?two and now = 50,
             THEN conjunct1, THEN mp, OF conjI [OF 1 conjI [OF 2 e50]]]
    by (simp add: d50)
  have b1: "fst (consumeMessage kafkajs parse_unary fresh ''t'' ?opts ?one 9999) = Waiting"
    using C3_null_at_the_deadline_and_errors
            [where cl = kafkajs and h = fresh and topic = "''t''" and opts = ?opts
               and parse = parse_unary and tml = ?one and now = 9999,
             THEN conjunct1, THEN mp, OF conjI [OF 1 conjI [OF 2 e9999]]]
    by (simp add: d)
  have b2: "fst (consumeMessage kafkajs parse_unary fresh ''t'' ?opts ?one 10000)
              = Returned None"
    using C3_null_at_the_deadline_and_errors
            [where cl = kafkajs and h = fresh and topic = "''t''" and opts = ?opts
               and parse = parse_unary and tml = ?one and now = 10000,
             THEN conjunct1, THEN mp, OF conjI [OF 1 conjI [OF 2 e10000]]]
    by (simp add: d)
  have nc: "\<not> isConnected (fresh\<lparr>isConnected := False\<rparr>)" by simp
  have c: "fst (consumeMessage kafkajs parse_unary (fresh\<lparr>isConnected := False\<rparr>) ''t''
                  ?opts [] 10000)
             = Threw not_connected"
    using C3_null_at_the_deadline_and_errors
            [where cl = kafkajs and h = "fresh\<lparr>isConnected := False\<rparr>" and topic = "''t''"
               and opts = ?opts and parse = parse_unary and tml = "[]" and now = 10000,
             THEN conjunct2, THEN conjunct1, THEN mp, OF nc] .
  have fl: "subscribe_answer flaky (subscribe_calls fresh) ''t'' = Some (Error ''disconnected'')"
    by (simp add: flaky_def kafkajs_def fresh_def)
  have f: "fst (consumeMessage flaky parse_unary fresh ''t'' ?opts [] 10000)
             = Threw (Error ''disconnected'')"
    using C3_null_at_the_deadline_and_errors
            [where cl = flaky and h = fresh and topic = "''t''" and opts = ?opts
               and parse = parse_unary and tml = "[]" and now = 10000
               and e' = "Error ''disconnected''",
             THEN conjunct2, THEN conjunct2, THEN conjunct1, THEN mp, OF conjI [OF 1 fl]] .
  have p: "\<forall>y\<in>set ?one. turned_down parse_unary (opt_filter ?opts) (event_of (snd y))"
    by (simp add: turned_down_def j)
  have t: "(20::nat) < timer_delay (timeout_of ?opts)" "(20::nat) \<le> 10000"
    by (simp_all add: d)
  have k: "\<not> stop_completes kafkajs" by (simp add: kafkajs_def)
  have r: "fst (consumeMessage kafkajs parse_unary fresh ''t'' ?opts
                  (?one @ (20, Delivers (msg_at 5 ''x'')) # []) 10000)
             = Waiting"
    using C3_null_at_the_deadline_and_errors
            [where cl = kafkajs and h = fresh and topic = "''t''" and opts = ?opts
               and parse = parse_unary and pre = ?one and t = 20 and now = 10000
               and d = "msg_at 5 ''x''" and e = "SyntaxError ''Unexpected token''"
               and post = "[]",
             THEN conjunct2, THEN conjunct2, THEN conjunct2, THEN conjunct1, THEN mp,
             OF conjI [OF 1 conjI [OF 2 conjI [OF p conjI [OF t(1) conjI [OF t(2) j(2)]]]]]]
      k
    by simp
  have v: "\<exists>qs rest.
         schedule (timer_delay (timeout_of ?opts)) 10000 ?one = qs @ TimerFires # rest
         \<and> (\<forall>i\<in>set qs. quiet parse_unary (opt_filter ?opts) i)"
    using C3_null_at_the_deadline_and_errors
            [where cl = kafkajs and h = fresh and topic = "''t''" and opts = ?opts
               and parse = parse_unary and tml = ?one and now = 10000,
             THEN conjunct2, THEN conjunct2, THEN conjunct2, THEN conjunct2, THEN mp, OF b2]
    by blast
  from a1 a2 b1 b2 c f r v show ?thesis by (intro conjI)
qed

text \<open>
  The claim as stated fails in both halves. A candidate that does not satisfy the filter
  because the filter raises on it does not give null at the deadline: with kafkajs the
  call stays pending, and with a client whose \<^verbatim>\<open>stop\<close> completes it throws. And a
  failure of the consumer during the wait ends as the timeout result, as if nothing had
  happened. Moreover the deadline is not always the caller's timeout: with a timeout
  above \<open>2147483647\<close> the call returns null after one millisecond.
\<close>

theorem C3_counterexample:
  "fst (consumeMessage kafkajs parse_unary fresh ''t'' (with_filter touchy)
          [(10, Delivers (msg_at 0 []))] 10000)
     = Waiting
   \<and> fst (consumeMessage test_double parse_unary fresh ''t'' (with_filter touchy)
          [(10, Delivers (msg_at 0 []))] 10000)
     = Threw (Error ''filter failed'')
   \<and> fst (consumeMessage kafkajs parse_unary fresh ''t'' no_options
          [(100, Crashes (Error ''broker unavailable''))] 10000)
     = Returned None
   \<and> fst (consumeMessage kafkajs parse_unary fresh ''t'' no_options [] 10000)
     = Returned None
   \<and> fst (consumeMessage kafkajs parse_unary fresh ''t''
          (no_options\<lparr>opt_timeout := Some 3000000000\<rparr>) [] 1)
     = Returned None"
  by (simp add: one_defs helper_defs time_defs example_defs)

text \<open>
  C8 (as the code has it). When what came before a satisfying candidate was decoded and
  turned down by the filter, and the candidate is delivered before the delay of the
  timer, it is the one the wait selects: the timer is cleared, \<^verbatim>\<open>stop\<close> is called, and
  nothing that follows, further satisfying candidates included, is observed. The call
  returns its event when the awaited \<^verbatim>\<open>stop\<close> completes, and stays pending otherwise.
  And whenever the call returns an event at all, it is the event of the earliest
  satisfying candidate: every event handled before it left the wait as it was.
\<close>

theorem C8_first_satisfying_event_is_selected:
  "(isConnected h \<and> subscribe_answer cl (subscribe_calls h) topic = None
      \<and> (\<forall>y\<in>set pre. turned_down parse (opt_filter opts) (event_of (snd y)))
      \<and> t < timer_delay (timeout_of opts) \<and> t \<le> now
      \<and> judge parse (opt_filter opts) d = Accepted v
      \<longrightarrow> fst (consumeMessage cl parse h topic opts (pre @ (t, Delivers d) # post) now)
            = (if stop_completes cl then Returned (Some (mk_event d v)) else Waiting)
        \<and> stop_calls (snd (consumeMessage cl parse h topic opts
                               (pre @ (t, Delivers d) # post) now))
            = Suc (stop_calls h)
        \<and> consumeMessage cl parse h topic opts (pre @ (t, Delivers d) # post) now
            = consumeMessage cl parse h topic opts (pre @ [(t, Delivers d)]) now)
   \<and> (fst (consumeMessage cl parse h topic opts tml now) = Returned (Some ev)
      \<longrightarrow> (\<exists>qs d' v' rest.
             schedule (timer_delay (timeout_of opts)) now tml = qs @ Message d' # rest
             \<and> (\<forall>i\<in>set qs. quiet parse (opt_filter opts) i)
             \<and> judge parse (opt_filter opts) d' = Accepted v'
             \<and> ev = mk_event d' v'))"
proof (intro conjI impI)
  assume a: "isConnected h \<and> subscribe_answer cl (subscribe_calls h) topic = None
      \<and> (\<forall>y\<in>set pre. turned_down parse (opt_filter opts) (event_of (snd y)))
      \<and> t < timer_delay (timeout_of opts) \<and> t \<le> now
      \<and> judge parse (opt_filter opts) d = Accepted v"
  then have ns: "judge parse (opt_filter opts) d \<noteq> Skipped" by simp
  from a have c: "isConnected h" "subscribe_answer cl (subscribe_calls h) topic = None"
    and p: "\<forall>y\<in>set pre. turned_down parse (opt_filter opts) (event_of (snd y))"
    and t: "t < timer_delay (timeout_of opts)" "t \<le> now"
    and j: "judge parse (opt_filter opts) d = Accepted v"
    by simp_all
  show "fst (consumeMessage cl parse h topic opts (pre @ (t, Delivers d) # post) now)
            = (if stop_completes cl then Returned (Some (mk_event d v)) else Waiting)"
    by (simp add: consumeMessage_result [OF c] first_decisive_cut [OF p t ns] j
        settle_one_def completion_of_def)
  from consumeMessage_decisive [OF c p t ns]
  show "stop_calls (snd (consumeMessage cl parse h topic opts
                               (pre @ (t, Delivers d) # post) now))
            = Suc (stop_calls h)"
    and "consumeMessage cl parse h topic opts (pre @ (t, Delivers d) # post) now
            = consumeMessage cl parse h topic opts (pre @ [(t, Delivers d)]) now"
    by blast+
next
  assume r: "fst (consumeMessage cl parse h topic opts tml now) = Returned (Some ev)"
  from fst_consumeMessage_Returned [OF r]
  have "first_decisive parse (opt_filter opts) (schedule (timer_delay (timeout_of opts)) now tml)
          = Matched ev"
    by (simp add: settle_one_event)
  then show "\<exists>qs d' v' rest.
             schedule (timer_delay (timeout_of opts)) now tml = qs @ Message d' # rest
             \<and> (\<forall>i\<in>set qs. quiet parse (opt_filter opts) i)
             \<and> judge parse (opt_filter opts) d' = Accepted v'
             \<and> ev = mk_event d' v'"
    by (rule first_decisive_Matched)
qed

theorem C8_witness:
  "fst (consumeMessage test_double parse_unary fresh ''t'' (with_filter (only 3))
          ([(10, Delivers (msg_at 0 ''1''))] @ (20, Delivers (msg_at 5 ''111''))
             # [(30, Delivers (msg_at 6 ''111''))]) 10000)
     = Returned (Some (mk_event (msg_at 5 ''111'') 3))
   \<and> ev_offset (mk_event (msg_at 5 ''111'') (3::nat)) = 5
   \<and> fst (consumeMessage kafkajs parse_unary fresh ''t'' (with_filter (only 3))
          ([(10, Delivers (msg_at 0 ''1''))] @ (20, Delivers (msg_at 5 ''111''))
             # [(30, Delivers (msg_at 6 ''111''))]) 10000)
     = Waiting
   \<and> (\<exists>qs d' v' rest.
         schedule (timer_delay (timeout_of (with_filter (only 3)))) 10000
             ([(10, Delivers (msg_at 0 ''1''))] @ (20, Delivers (msg_at 5 ''111''))
                # [(30, Delivers (msg_at 6 ''111''))])
           = qs @ Message d' # rest
         \<and> (\<forall>i\<in>set qs. quiet parse_unary (opt_filter (with_filter (only 3))) i)
         \<and> judge parse_unary (opt_filter (with_filter (only 3))) d' = Accepted v'
         \<and> mk_event (msg_at 5 ''111'') 3 = mk_event d' v')"
proof -
  let ?opts = "with_filter (only 3)"
  let ?pre = "[(10::nat, Delivers (msg_at 0 ''1''))]"
  let ?post = "[(30::nat, Delivers (msg_at 6 ''111''))]"
  have 1: "isConnected fresh" by (simp add: fresh_def)
  have 2: "subscribe_answer kafkajs (subscribe_calls fresh) ''t'' = None"
    "subscribe_answer test_double (subscribe_calls fresh) ''t'' = None"
    by (simp_all add: kafkajs_def test_double_def)
  have d: "timer_delay (timeout_of ?opts) = 10000"
    by (simp add: timer_delay_def timeout_of_def with_filter_def no_options_def)
  have j: "judge parse_unary (opt_filter ?opts) (msg_at 0 ''1'') = Skipped"
    "judge parse_unary (opt_filter ?opts) (msg_at 5 ''111'') = Accepted 3"
    by (simp_all add: judge_def decode_def example_defs)
  have p: "\<forall>y\<in>set ?pre. turned_down parse_unary (opt_filter ?opts) (event_of (snd y))"
    by (simp add: turned_down_def j)
  have t: "(20::nat) < timer_delay (timeout_of ?opts)" "(20::nat) \<le> 10000"
    by (simp_all add: d)
  have k: "\<not> stop_completes kafkajs" "stop_completes test_double"
    by (simp_all add: kafkajs_def test_double_def)
  have o: "ev_offset (mk_event (msg_at 5 ''111'') (3::nat)) = 5"
    by (simp add: mk_event_def msg_at_def)
  have a: "fst (consumeMessage test_double parse_unary fresh ''t'' ?opts
                  (?pre @ (20, Delivers (msg_at 5 ''111'')) # ?post) 10000)
             = Returned (Some (mk_event (msg_at 5 ''111'') 3))"
    using C8_first_satisfying_event_is_selected
            [where cl = test_double and h = fresh and topic = "''t''" and opts = ?opts
               and parse = parse_unary and pre = ?pre and t = 20 and now = 10000
               and d = "msg_at 5 ''111''" and v = 3 and post = ?post,
             THEN conjunct1, THEN mp,
             OF conjI [OF 1 conjI [OF 2(2) conjI [OF p conjI [OF t(1) conjI [OF t(2) j(2)]]]]],
             THEN conjunct1]
      k
    by simp
  have b: "fst (consumeMessage kafkajs parse_unary fresh ''t'' ?opts
                  (?pre @ (20, Delivers (msg_at 5 ''111'')) # ?post) 10000)
             = Waiting"
    using C8_first_satisfying_event_is_selected
            [where cl = kafkajs and h = fresh and topic = "''t''" and opts = ?opts
               and parse = parse_unary and pre = ?pre and t = 20 and now = 10000
               and d = "msg_at 5 ''111''" and v = 3 and post = ?post,
             THEN conjunct1, THEN mp,
             OF conjI [OF 1 conjI [OF 2(1) conjI [OF p conjI [OF t(1) conjI [OF t(2) j(2)]]]]],
             THEN conjunct1]
      k
    by simp
  have c: "\<exists>qs d' v' rest.
         schedule (timer_delay (timeout_of ?opts)) 10000
             (?pre @ (20, Delivers (msg_at 5 ''111'')) # ?post)
           = qs @ Message d' # rest
         \<and> (\<forall>i\<in>set qs. quiet parse_unary (opt_filter ?opts) i)
         \<and> judge parse_unary (opt_filter ?opts) d' = Accepted v'
         \<and> mk_event (msg_at 5 ''111'') 3 = mk_event d' v'"
    using C8_first_satisfying_event_is_selected
            [where cl = test_double and h = fresh and topic = "''t''" and opts = ?opts
               and parse = parse_unary
               and tml = "?pre @ (20, Delivers (msg_at 5 ''111'')) # ?post" and now = 10000
               and ev = "mk_event (msg_at 5 ''111'') 3",
             THEN conjunct2, THEN mp, OF a]
    by blast
  from a o b c show ?thesis by (intro conjI)
qed

text \<open>
  The claim as stated fails. After an undecodable candidate the first satisfying event
  is not returned: with kafkajs the call stays pending, with a client whose \<^verbatim>\<open>stop\<close>
  completes it throws. And with kafkajs the call stays pending also when the first
  candidate satisfies the filter, since the handler awaits a \<^verbatim>\<open>stop\<close> that waits for the
  handler.
\<close>

theorem C8_counterexample:
  "fst (consumeMessage kafkajs parse_unary fresh ''t'' (with_filter (only 3))
          [(10, Delivers (msg_at 0 ''x'')), (20, Delivers (msg_at 5 ''111'')),
           (30, Delivers (msg_at 6 ''111''))] 10000)
     = Waiting
   \<and> fst (consumeMessage test_double parse_unary fresh ''t'' (with_filter (only 3))
          [(10, Delivers (msg_at 0 ''x'')), (20, Delivers (msg_at 5 ''111'')),
           (30, Delivers (msg_at 6 ''111''))] 10000)
     = Threw (SyntaxError ''Unexpected token'')
   \<and> fst (consumeMessage kafkajs parse_unary fresh ''t'' (with_filter (only 3))
          [(20, Delivers (msg_at 5 ''111'')), (30, Delivers (msg_at 6 ''111''))] 10000)
     = Waiting"
  by (simp add: one_defs helper_defs time_defs example_defs)

section \<open>Facts about a multi-match wait\<close>

lemma step_many_settled:
  "c_promise c \<noteq> Pending \<Longrightarrow> c_promise (step_many cl parse filt k i c) = c_promise c"
  by (cases "c_promise c")
     (auto simp: step_many_def eachMessage_many_def timeout_many_def catch_many_def push_many_def
        resolve_def reject_def Let_def split: input.splits option.splits sum.splits)

lemma run_many_settled:
  "c_promise c \<noteq> Pending \<Longrightarrow> c_promise (run_many cl parse filt k is c) = c_promise c"
  by (induction "is" arbitrary: c) (simp_all add: step_many_settled)

lemma step_many_idle:
  "\<not> running (c_helper c) \<Longrightarrow> c_timer c = None \<Longrightarrow> step_many cl parse filt k i c = c"
  by (simp add: step_many_def split: input.splits)

lemma run_many_idle:
  "\<not> running (c_helper c) \<Longrightarrow> c_timer c = None \<Longrightarrow> run_many cl parse filt k is c = c"
  by (induction "is") (simp_all add: step_many_idle)

lemma step_many_skipped:
  assumes "armed_many c" and "judge parse filt d = Skipped"
  shows "armed_many (step_many cl parse filt k (Message d) c)
         \<and> c_messages (step_many cl parse filt k (Message d) c) = c_messages c"
  using assms
  by (auto simp: armed_many_def judge_def step_many_def eachMessage_many_def
        split: option.splits sum.splits if_splits)

lemma step_many_raises:
  assumes "armed_many c" and "judge parse filt d = Raises e"
  shows "c_promise (step_many cl parse filt k (Message d) c)
           = (if stop_completes cl then Rejected e else Pending)
         \<and> \<not> running (c_helper (step_many cl parse filt k (Message d) c))
         \<and> c_timer (step_many cl parse filt k (Message d) c) = None"
  using assms
  by (auto simp: armed_many_def judge_def step_many_def eachMessage_many_def catch_many_def
        reject_def consumer_stop_def
        split: option.splits sum.splits if_splits)

lemma step_many_accepted:
  assumes "armed_many c" and "judge parse filt d = Accepted v"
  shows "if k \<le> int (length (c_messages c)) + 1
         then c_promise (step_many cl parse filt k (Message d) c)
                = (if stop_completes cl then Resolved (c_messages c @ [mk_event d v])
                   else Pending)
              \<and> \<not> running (c_helper (step_many cl parse filt k (Message d) c))
              \<and> c_timer (step_many cl parse filt k (Message d) c) = None
         else armed_many (step_many cl parse filt k (Message d) c)
              \<and> c_messages (step_many cl parse filt k (Message d) c)
                  = c_messages c @ [mk_event d v]"
  using assms
  by (auto simp: armed_many_def judge_def step_many_def eachMessage_many_def push_many_def
        resolve_def consumer_stop_def Let_def
        split: option.splits sum.splits if_splits)

lemma step_many_timer:
  "armed_many c \<Longrightarrow>
   c_promise (step_many cl parse filt k TimerFires c) = Resolved (c_messages c)"
  by (auto simp: armed_many_def step_many_def timeout_many_def resolve_def)

text \<open>The promise of a multi-match wait in progress is settled as \<open>gather\<close> says.\<close>

lemma run_many_gather:
  "armed_many c \<Longrightarrow>
   c_promise (run_many cl parse filt k is c)
     = settle_many cl (gather parse filt k (c_messages c) is)"
proof (induction "is" arbitrary: c)
  case Nil
  then show ?case by (simp add: armed_many_def settle_many_def)
next
  case (Cons i "is")
  show ?case
  proof (cases i)
    case TimerFires
    with Cons.prems show ?thesis
      by (simp add: run_many_settled step_many_timer settle_many_def)
  next
    case (ConsumerFails e)
    with Cons show ?thesis by (simp add: step_many_def)
  next
    case (Message d)
    show ?thesis
    proof (cases "judge parse filt d")
      case (Raises e)
      from step_many_raises [OF Cons.prems Raises, of cl k]
      show ?thesis by (simp add: Message Raises run_many_idle settle_many_def)
    next
      case Skipped
      from step_many_skipped [OF Cons.prems Skipped, of cl k]
      show ?thesis by (simp add: Message Skipped Cons.IH)
    next
      case (Accepted v)
      show ?thesis
      proof (cases "k \<le> int (length (c_messages c)) + 1")
        case True
        with step_many_accepted [OF Cons.prems Accepted, of k cl]
        show ?thesis by (simp add: Message Accepted run_many_idle settle_many_def)
      next
        case False
        with step_many_accepted [OF Cons.prems Accepted, of k cl]
        show ?thesis by (simp add: Message Accepted Cons.IH)
      qed
    qed
  qed
qed

lemma fst_consumeMessages_finish:
  "fst (consumeMessages_finish topic c) = completion_of (c_promise c)"
  by (simp add: consumeMessages_finish_def completion_of_def split: promise.splits)

lemma consumeMessages_arm_ok:
  assumes "isConnected h" and "subscribe_answer cl (subscribe_calls h) topic = None"
  shows "\<exists>c. consumeMessages_arm cl h topic opts = Inr c \<and> armed_many c \<and> c_messages c = []
           \<and> subscriptions (c_helper c) = subscriptions h @ [(topic, fromBeginning_of opts)]
           \<and> subscribe_calls (c_helper c) = Suc (subscribe_calls h)
           \<and> c_timer c = Some (timeout_of opts)"
  using assms
  by (simp add: consumeMessages_arm_def consumer_subscribe_def logger_info_def consumer_run_def
      armed_many_def)

lemma consumeMessages_result:
  assumes "isConnected h" and "subscribe_answer cl (subscribe_calls h) topic = None"
  shows "fst (consumeMessages cl parse h topic opts tml now)
           = completion_of (settle_many cl
               (gather parse (opt_filter opts) (maxMessages_of opts) []
                  (schedule (timer_delay (timeout_of opts)) now tml)))"
proof -
  from assms consumeMessages_arm_ok [where h = h and cl = cl and topic = topic and opts = opts]
  obtain c where "consumeMessages_arm cl h topic opts = Inr c" and "armed_many c"
    and "c_messages c = []"
    by blast
  then show ?thesis
    by (simp add: consumeMessages_def fst_consumeMessages_finish run_many_gather)
qed

lemma consumeMessages_not_connected:
  "\<not> isConnected h \<Longrightarrow> consumeMessages cl parse h topic opts tml now = (Threw not_connected, h)"
  by (simp add: consumeMessages_def consumeMessages_arm_def)

lemma consumeMessages_subscribe_fails:
  assumes "isConnected h" and "subscribe_answer cl (subscribe_calls h) topic = Some e"
  shows "fst (consumeMessages cl parse h topic opts tml now) = Threw e
         \<and> subscribe_calls (snd (consumeMessages cl parse h topic opts tml now))
             = Suc (subscribe_calls h)
         \<and> running (snd (consumeMessages cl parse h topic opts tml now)) = running h
         \<and> subscriptions (snd (consumeMessages cl parse h topic opts tml now)) = subscriptions h
         \<and> last (logs (snd (consumeMessages cl parse h topic opts tml now)))
             = (Err, ''Failed to consume messages from topic: '' @ topic)"
  using assms
  by (simp add: consumeMessages_def consumeMessages_arm_def consumer_subscribe_def
      logger_info_def logger_error_def)





text \<open>A run of candidates none of which raises, met with fewer events than the cap.\<close>

lemma gather_clean:
  assumes "\<forall>x\<in>set ds. \<not> raising parse filt x" and "int (length acc) < k"
  shows "gather parse filt k acc (map Message ds @ rest)
           = (if k \<le> int (length acc) + int (length (satisfying parse filt ds))
              then Capped (acc @ take (nat k - length acc) (satisfying parse filt ds))
              else gather parse filt k (acc @ satisfying parse filt ds) rest)"
  using assms
proof (induction ds arbitrary: acc)
  case Nil
  then show ?case by simp
next
  case (Cons d ds)
  show ?case
  proof (cases "judge parse filt d")
    case (Raises e)
    with Cons.prems show ?thesis by (simp add: raising_def)
  next
    case Skipped
    with Cons show ?thesis by simp
  next
    case (Accepted v)
    show ?thesis
    proof (cases "k \<le> int (length acc) + 1")
      case True
      with Cons.prems have "nat k - length acc = Suc 0" by linarith
      with True Accepted show ?thesis by simp
    next
      case False
      then have lt: "int (length (acc @ [mk_event d v])) < k" by simp
      from False have "nat k - length acc = Suc (nat k - length (acc @ [mk_event d v]))"
        by simp
      with False Accepted Cons.IH [OF _ lt] Cons.prems(1) show ?thesis
        by simp
    qed
  qed
qed

lemma clean_inputs:
  "\<forall>i\<in>set is. clean parse filt i \<Longrightarrow>
   is = map Message (payloads is) \<and> (\<forall>x\<in>set (payloads is). \<not> raising parse filt x)"
proof (induction "is")
  case Nil
  then show ?case by simp
next
  case (Cons i "is")
  then show ?case by (cases i) (simp_all add: clean_def)
qed

lemma gather_observed:
  assumes "\<forall>i\<in>set (early delay now tml). clean parse filt i" and "1 \<le> k"
  shows "gather parse filt k [] (schedule delay now tml)
           = (if k \<le> int (length (satisfying parse filt (observed delay now tml)))
              then Capped (take (nat k) (satisfying parse filt (observed delay now tml)))
              else if delay \<le> now
                   then Deadline (satisfying parse filt (observed delay now tml))
                   else Gathering (satisfying parse filt (observed delay now tml)))"
proof -
  from clean_inputs [OF assms(1)]
  have e: "early delay now tml = map Message (observed delay now tml)"
    and c: "\<forall>x\<in>set (observed delay now tml). \<not> raising parse filt x"
    by (simp_all add: observed_def)
  have k: "int (length ([] :: 'a event list)) < k"
    using assms(2) by simp
  have s: "schedule delay now tml
             = map Message (observed delay now tml)
                 @ (if delay \<le> now then TimerFires # late delay now tml else [])"
    using e by (simp add: schedule_def)
  show ?thesis
    by (simp add: s gather_clean [OF c k])
qed

section \<open>Claims about consumeMessages\<close>







section \<open>Arming a wait\<close>

lemma step_one_subscribed:
  "subscriptions (w_helper (step_one cl parse filt topic i w)) = subscriptions (w_helper w)
   \<and> subscribe_calls (w_helper (step_one cl parse filt topic i w))
       = subscribe_calls (w_helper w)"
  by (auto simp: step_one_def eachMessage_one_def timeout_one_def catch_one_def matched_one_def
        consumer_stop_def logger_info_def logger_warn_def Let_def
        split: input.splits option.splits sum.splits)

lemma run_one_subscribed:
  "subscriptions (w_helper (run_one cl parse filt topic is w)) = subscriptions (w_helper w)
   \<and> subscribe_calls (w_helper (run_one cl parse filt topic is w))
       = subscribe_calls (w_helper w)"
  by (induction "is" arbitrary: w) (simp_all add: step_one_subscribed)

lemma snd_consumeMessage_finish:
  "subscriptions (snd (consumeMessage_finish topic w)) = subscriptions (w_helper w)
   \<and> subscribe_calls (snd (consumeMessage_finish topic w)) = subscribe_calls (w_helper w)"
  by (simp add: consumeMessage_finish_def logger_error_def split: promise.splits)

lemma consumeMessage_subscribed:
  assumes "isConnected h" and "subscribe_answer cl (subscribe_calls h) topic = None"
  shows "subscriptions (snd (consumeMessage cl parse h topic opts tml now))
           = subscriptions h @ [(topic, fromBeginning_of opts)]
         \<and> subscribe_calls (snd (consumeMessage cl parse h topic opts tml now))
           = Suc (subscribe_calls h)"
proof -
  from assms consumeMessage_arm_ok [where h = h and cl = cl and topic = topic and opts = opts]
  obtain w where "consumeMessage_arm cl h topic opts = Inr w"
    and "subscriptions (w_helper w) = subscriptions h @ [(topic, fromBeginning_of opts)]"
    and "subscribe_calls (w_helper w) = Suc (subscribe_calls h)"
    by blast
  then show ?thesis
    by (simp add: consumeMessage_def snd_consumeMessage_finish run_one_subscribed)
qed

lemma step_many_subscribed:
  "subscriptions (c_helper (step_many cl parse filt k i c)) = subscriptions (c_helper c)
   \<and> subscribe_calls (c_helper (step_many cl parse filt k i c))
       = subscribe_calls (c_helper c)"
  by (auto simp: step_many_def eachMessage_many_def timeout_many_def catch_many_def push_many_def
        consumer_stop_def logger_info_def Let_def
        split: input.splits option.splits sum.splits)

lemma run_many_subscribed:
  "subscriptions (c_helper (run_many cl parse filt k is c)) = subscriptions (c_helper c)
   \<and> subscribe_calls (c_helper (run_many cl parse filt k is c))
       = subscribe_calls (c_helper c)"
  by (induction "is" arbitrary: c) (simp_all add: step_many_subscribed)

lemma snd_consumeMessages_finish:
  "subscriptions (snd (consumeMessages_finish topic c)) = subscriptions (c_helper c)
   \<and> subscribe_calls (snd (consumeMessages_finish topic c)) = subscribe_calls (c_helper c)"
  by (simp add: consumeMessages_finish_def logger_error_def split: promise.splits)

lemma consumeMessages_subscribed:
  assumes "isConnected h" and "subscribe_answer cl (subscribe_calls h) topic = None"
  shows "subscriptions (snd (consumeMessages cl parse h topic opts tml now))
           = subscriptions h @ [(topic, fromBeginning_of opts)]
         \<and> subscribe_calls (snd (consumeMessages cl parse h topic opts tml now))
           = Suc (subscribe_calls h)"
proof -
  from assms consumeMessages_arm_ok [where h = h and cl = cl and topic = topic and opts = opts]
  obtain c where "consumeMessages_arm cl h topic opts = Inr c"
    and "subscriptions (c_helper c) = subscriptions h @ [(topic, fromBeginning_of opts)]"
    and "subscribe_calls (c_helper c) = Suc (subscribe_calls h)"
    by blast
  then show ?thesis
    by (simp add: consumeMessages_def snd_consumeMessages_finish run_many_subscribed)
qed

lemma subscribe_calls_connected:
  assumes "isConnected h"
  shows "subscribe_calls (snd (consumeMessage cl parse h topic opts tml now))
           = Suc (subscribe_calls h)
       \<and> subscribe_calls (snd (consumeMessages cl parse h topic opts tml now))
           = Suc (subscribe_calls h)"
proof (cases "subscribe_answer cl (subscribe_calls h) topic")
  case None
  with assms show ?thesis
    by (simp add: consumeMessage_subscribed consumeMessages_subscribed)
next
  case (Some e)
  with assms
    consumeMessage_subscribe_fails
      [where h = h and cl = cl and e = e and parse = parse and topic = topic
         and opts = opts and tml = tml and now = now]
    consumeMessages_subscribe_fails
      [where h = h and cl = cl and e = e and parse = parse and topic = topic
         and opts = opts and tml = tml and now = now]
  show ?thesis by simp
qed

text \<open>A wait whose timer has the delay 1 and that gets nothing in the first millisecond.\<close>

lemma schedule_nothing_early:
  assumes "\<forall>y\<in>set tml. Suc 0 \<le> fst y"
  shows "schedule (Suc 0) now tml
           = (if Suc 0 \<le> now then TimerFires # late (Suc 0) now tml else [])"
proof -
  have "filter (\<lambda>y. fst y < Suc 0 \<and> fst y \<le> now) tml = []"
    using assms by (auto simp: filter_empty_conv)
  then show ?thesis by (simp add: schedule_def early_def)
qed

text \<open>A failure of the consumer during a wait runs no code of the helper.\<close>

lemma run_one_fails:
  "run_one cl parse filt topic (xs @ ConsumerFails e # ys) w
     = run_one cl parse filt topic (xs @ ys) w"
  by (simp add: run_one_append step_one_def)

lemma run_many_append:
  "run_many cl parse filt k (xs @ ys) c
     = run_many cl parse filt k ys (run_many cl parse filt k xs c)"
  by (induction xs arbitrary: c) simp_all

lemma run_many_fails:
  "run_many cl parse filt k (xs @ ConsumerFails e # ys) c
     = run_many cl parse filt k (xs @ ys) c"
  by (simp add: run_many_append step_many_def)

lemma schedule_crash:
  "\<exists>xs ys. schedule delay now (pre @ (t, Crashes e) # post)
              = xs @ (if t \<le> now then [ConsumerFails e] else []) @ ys
          \<and> schedule delay now (pre @ post) = xs @ ys"
proof (cases "t \<le> now")
  case False
  then have "schedule delay now (pre @ (t, Crashes e) # post) = schedule delay now (pre @ post)"
    by (simp add: schedule_def early_def late_def)
  with False show ?thesis by auto
next
  case True
  show ?thesis
  proof (cases "t < delay")
    case True
    with \<open>t \<le> now\<close>
    have "schedule delay now (pre @ (t, Crashes e) # post)
            = early delay now pre @ [ConsumerFails e]
                @ (early delay now post
                    @ (if delay \<le> now then TimerFires # late delay now (pre @ post) else []))"
      and "schedule delay now (pre @ post)
            = early delay now pre
                @ (early delay now post
                    @ (if delay \<le> now then TimerFires # late delay now (pre @ post) else []))"
      by (simp_all add: schedule_def early_def late_def)
    with \<open>t \<le> now\<close> show ?thesis by (metis (full_types))
  next
    case False
    with \<open>t \<le> now\<close>
    have "schedule delay now (pre @ (t, Crashes e) # post)
            = (early delay now (pre @ post) @ TimerFires # late delay now pre)
                @ [ConsumerFails e] @ late delay now post"
      and "schedule delay now (pre @ post)
            = (early delay now (pre @ post) @ TimerFires # late delay now pre)
                @ late delay now post"
      by (simp_all add: schedule_def early_def late_def)
    with \<open>t \<le> now\<close> show ?thesis by (metis (full_types))
  qed
qed

lemma consumeMessage_crash:
  "consumeMessage cl parse h topic opts (pre @ (t, Crashes e) # post) now
     = consumeMessage cl parse h topic opts (pre @ post) now"
proof -
  from schedule_crash [of "timer_delay (timeout_of opts)" now pre t e post]
  obtain xs ys where
    "schedule (timer_delay (timeout_of opts)) now (pre @ (t, Crashes e) # post)
       = xs @ (if t \<le> now then [ConsumerFails e] else []) @ ys"
    and "schedule (timer_delay (timeout_of opts)) now (pre @ post) = xs @ ys"
    by blast
  then have "run_one cl parse (opt_filter opts) topic
               (schedule (timer_delay (timeout_of opts)) now (pre @ (t, Crashes e) # post)) w
             = run_one cl parse (opt_filter opts) topic
               (schedule (timer_delay (timeout_of opts)) now (pre @ post)) w" for w
    by (simp add: run_one_fails)
  then show ?thesis by (simp add: consumeMessage_def split: sum.split)
qed

lemma consumeMessages_crash:
  "consumeMessages cl parse h topic opts (pre @ (t, Crashes e) # post) now
     = consumeMessages cl parse h topic opts (pre @ post) now"
proof -
  from schedule_crash [of "timer_delay (timeout_of opts)" now pre t e post]
  obtain xs ys where
    "schedule (timer_delay (timeout_of opts)) now (pre @ (t, Crashes e) # post)
       = xs @ (if t \<le> now then [ConsumerFails e] else []) @ ys"
    and "schedule (timer_delay (timeout_of opts)) now (pre @ post) = xs @ ys"
    by blast
  then have "run_many cl parse (opt_filter opts) (maxMessages_of opts)
               (schedule (timer_delay (timeout_of opts)) now (pre @ (t, Crashes e) # post)) c
             = run_many cl parse (opt_filter opts) (maxMessages_of opts)
               (schedule (timer_delay (timeout_of opts)) now (pre @ post)) c" for c
    by (simp add: run_many_fails)
  then show ?thesis by (simp add: consumeMessages_def split: sum.split)
qed

section \<open>Claims about the arming of a wait\<close>

text \<open>
  C6 (as the code has it). The only condition checked before the subscription is that
  the helper is connected: when it is not, both operations throw the "not connected"
  error and leave the helper untouched, so \<^verbatim>\<open>subscribe\<close> is not invoked. On a connected
  helper \<^verbatim>\<open>subscribe\<close> is invoked once, whatever the timeout and the topic are; when
  the client refuses the subscription the call throws the client's error, after that
  invocation, and when it accepts, the subscription is made for the topic as it was
  given. A timeout of zero or less is not refused: the timer gets the delay of one
  millisecond, and a wait that gets nothing before that ends with its normal timeout
  result, null or the empty list.
\<close>

theorem C6_only_the_connection_is_checked:
  "(\<not> isConnected h
      \<longrightarrow> consumeMessage cl parse h topic opts tml now = (Threw not_connected, h)
        \<and> consumeMessages cl parse h topic opts tml now = (Threw not_connected, h))
   \<and> (isConnected h
      \<longrightarrow> subscribe_calls (snd (consumeMessage cl parse h topic opts tml now))
            = Suc (subscribe_calls h)
        \<and> subscribe_calls (snd (consumeMessages cl parse h topic opts tml now))
            = Suc (subscribe_calls h))
   \<and> (isConnected h \<and> subscribe_answer cl (subscribe_calls h) topic = Some e
      \<longrightarrow> fst (consumeMessage cl parse h topic opts tml now) = Threw e
        \<and> fst (consumeMessages cl parse h topic opts tml now) = Threw e)
   \<and> (isConnected h \<and> subscribe_answer cl (subscribe_calls h) topic = None
      \<longrightarrow> subscriptions (snd (consumeMessage cl parse h topic opts tml now))
            = subscriptions h @ [(topic, fromBeginning_of opts)]
        \<and> subscriptions (snd (consumeMessages cl parse h topic opts tml now))
            = subscriptions h @ [(topic, fromBeginning_of opts)])
   \<and> (isConnected h \<and> subscribe_answer cl (subscribe_calls h) topic = None
      \<and> timeout_of opts < 1 \<and> (\<forall>y\<in>set tml. 1 \<le> fst y)
      \<longrightarrow> fst (consumeMessage cl parse h topic opts tml now)
            = (if 1 \<le> now then Returned None else Waiting)
        \<and> fst (consumeMessages cl parse h topic opts tml now)
            = (if 1 \<le> now then Returned [] else Waiting))"
proof (intro conjI impI)
  assume "\<not> isConnected h"
  then show "consumeMessage cl parse h topic opts tml now = (Threw not_connected, h)"
    and "consumeMessages cl parse h topic opts tml now = (Threw not_connected, h)"
    by (simp_all add: consumeMessage_not_connected consumeMessages_not_connected)
next
  assume "isConnected h"
  then show "subscribe_calls (snd (consumeMessage cl parse h topic opts tml now))
            = Suc (subscribe_calls h)"
    and "subscribe_calls (snd (consumeMessages cl parse h topic opts tml now))
            = Suc (subscribe_calls h)"
    by (simp_all add: subscribe_calls_connected)
next
  assume a: "isConnected h \<and> subscribe_answer cl (subscribe_calls h) topic = Some e"
  from a
    consumeMessage_subscribe_fails
      [where h = h and cl = cl and e = e and parse = parse and topic = topic
         and opts = opts and tml = tml and now = now]
  show "fst (consumeMessage cl parse h topic opts tml now) = Threw e" by simp
  from a
    consumeMessages_subscribe_fails
      [where h = h and cl = cl and e = e and parse = parse and topic = topic
         and opts = opts and tml = tml and now = now]
  show "fst (consumeMessages cl parse h topic opts tml now) = Threw e" by simp
next
  assume "isConnected h \<and> subscribe_answer cl (subscribe_calls h) topic = None"
  then show "subscriptions (snd (consumeMessage cl parse h topic opts tml now))
            = subscriptions h @ [(topic, fromBeginning_of opts)]"
    and "subscriptions (snd (consumeMessages cl parse h topic opts tml now))
            = subscriptions h @ [(topic, fromBeginning_of opts)]"
    by (simp_all add: consumeMessage_subscribed consumeMessages_subscribed)
next
  assume a: "isConnected h \<and> subscribe_answer cl (subscribe_calls h) topic = None
      \<and> timeout_of opts < 1 \<and> (\<forall>y\<in>set tml. 1 \<le> fst y)"
  then have c: "isConnected h" "subscribe_answer cl (subscribe_calls h) topic = None"
    and d: "timer_delay (timeout_of opts) = 1"
    and n: "\<forall>y\<in>set tml. Suc 0 \<le> fst y"
    by (simp_all add: timer_delay_def)
  show "fst (consumeMessage cl parse h topic opts tml now)
            = (if 1 \<le> now then Returned None else Waiting)"
    by (simp add: consumeMessage_result [OF c] d schedule_nothing_early [OF n]
        settle_one_def completion_of_def)
  show "fst (consumeMessages cl parse h topic opts tml now)
            = (if 1 \<le> now then Returned [] else Waiting)"
    by (simp add: consumeMessages_result [OF c] d schedule_nothing_early [OF n]
        settle_many_def completion_of_def)
qed

theorem C6_witness:
  "consumeMessage kafkajs parse_unary (fresh\<lparr>isConnected := False\<rparr>) ''t''
     (no_options\<lparr>opt_timeout := Some 0\<rparr>) [] 5
     = (Threw not_connected, fresh\<lparr>isConnected := False\<rparr>)
   \<and> subscribe_calls (snd (consumeMessage kafkajs parse_unary fresh ''t''
        (no_options\<lparr>opt_timeout := Some 0\<rparr>) [] 5))
     = Suc (subscribe_calls fresh)
   \<and> fst (consumeMessages kafkajs parse_unary fresh []
        (no_options\<lparr>opt_timeout := Some 0\<rparr>) [] 5)
     = Threw (Error ''invalid topic'')
   \<and> subscriptions (snd (consumeMessages kafkajs parse_unary fresh ''t''
        (no_options\<lparr>opt_timeout := Some 0\<rparr>) [] 5))
     = subscriptions fresh @ [(''t'', True)]
   \<and> fst (consumeMessage kafkajs parse_unary fresh ''t''
        (no_options\<lparr>opt_timeout := Some 0\<rparr>) [(3, Delivers (msg_at 5 ''11''))] 5)
     = Returned None"
proof -
  let ?opts = "no_options\<lparr>opt_timeout := Some 0\<rparr> :: nat options"
  have 1: "\<not> isConnected (fresh\<lparr>isConnected := False\<rparr>)" by simp
  have 2: "isConnected fresh" by (simp add: fresh_def)
  have 3: "subscribe_answer kafkajs (subscribe_calls fresh) [] = Some (Error ''invalid topic'')"
    by (simp add: kafkajs_def)
  have 4: "subscribe_answer kafkajs (subscribe_calls fresh) ''t'' = None"
    by (simp add: kafkajs_def)
  have 5: "timeout_of ?opts < 1" by (simp add: timeout_of_def)
  have 6: "\<forall>y\<in>set [(3::nat, Delivers (msg_at 5 ''11''))]. 1 \<le> fst y" by simp
  have a: "consumeMessage kafkajs parse_unary (fresh\<lparr>isConnected := False\<rparr>) ''t'' ?opts [] 5
             = (Threw not_connected, fresh\<lparr>isConnected := False\<rparr>)"
    using C6_only_the_connection_is_checked
            [where h = "fresh\<lparr>isConnected := False\<rparr>" and cl = kafkajs and parse = parse_unary
               and topic = "''t''" and opts = ?opts and tml = "[]" and now = 5,
             THEN conjunct1, THEN mp, OF 1, THEN conjunct1] .
  have b: "subscribe_calls (snd (consumeMessage kafkajs parse_unary fresh ''t'' ?opts [] 5))
             = Suc (subscribe_calls fresh)"
    using C6_only_the_connection_is_checked
            [where h = fresh and cl = kafkajs and parse = parse_unary
               and topic = "''t''" and opts = ?opts and tml = "[]" and now = 5,
             THEN conjunct2, THEN conjunct1, THEN mp, OF 2, THEN conjunct1] .
  have c: "fst (consumeMessages kafkajs parse_unary fresh [] ?opts [] 5)
             = Threw (Error ''invalid topic'')"
    using C6_only_the_connection_is_checked
            [where h = fresh and cl = kafkajs and parse = parse_unary
               and topic = "[]" and opts = ?opts and tml = "[]" and now = 5
               and e = "Error ''invalid topic''",
             THEN conjunct2, THEN conjunct2, THEN conjunct1, THEN mp, OF conjI [OF 2 3],
             THEN conjunct2] .
  have fb: "fromBeginning_of ?opts = True"
    by (simp add: fromBeginning_of_def no_options_def)
  have d: "subscriptions (snd (consumeMessages kafkajs parse_unary fresh ''t'' ?opts [] 5))
             = subscriptions fresh @ [(''t'', True)]"
    using C6_only_the_connection_is_checked
            [where h = fresh and cl = kafkajs and parse = parse_unary
               and topic = "''t''" and opts = ?opts and tml = "[]" and now = 5,
             THEN conjunct2, THEN conjunct2, THEN conjunct2, THEN conjunct1, THEN mp,
             OF conjI [OF 2 4], THEN conjunct2]
    by (simp only: fb)
  have e: "fst (consumeMessage kafkajs parse_unary fresh ''t'' ?opts
                  [(3, Delivers (msg_at 5 ''11''))] 5)
             = Returned None"
    using C6_only_the_connection_is_checked
            [where h = fresh and cl = kafkajs and parse = parse_unary
               and topic = "''t''" and opts = ?opts
               and tml = "[(3, Delivers (msg_at 5 ''11''))]" and now = 5,
             THEN conjunct2, THEN conjunct2, THEN conjunct2, THEN conjunct2, THEN mp,
             OF conjI [OF 2 conjI [OF 4 conjI [OF 5 6]]], THEN conjunct1]
    by simp
  from a b c d e show ?thesis by (intro conjI)
qed

text \<open>
  The claim as stated fails: with a valid topic and a timeout of zero, or a negative
  one, nothing is thrown; the subscription is made and the wait ends with its normal
  timeout result. And the empty topic is refused by the client, not by the helper:
  the call throws after \<^verbatim>\<open>subscribe\<close> was invoked.
\<close>

theorem C6_counterexample:
  "fst (consumeMessage kafkajs parse_unary fresh ''t'' (no_options\<lparr>opt_timeout := Some 0\<rparr>)
          [] 1)
     = Returned None
   \<and> subscriptions (snd (consumeMessage kafkajs parse_unary fresh ''t''
        (no_options\<lparr>opt_timeout := Some 0\<rparr>) [] 1))
     = [(''t'', True)]
   \<and> fst (consumeMessages kafkajs parse_unary fresh ''t''
          (no_options\<lparr>opt_timeout := Some (- 5)\<rparr>) [] 1)
     = Returned []
   \<and> subscribe_calls (snd (consumeMessages kafkajs parse_unary fresh ''t''
        (no_options\<lparr>opt_timeout := Some (- 5)\<rparr>) [] 1))
     = 1
   \<and> fst (consumeMessage kafkajs parse_unary fresh [] no_options [] 1)
     = Threw (Error ''invalid topic'')
   \<and> subscribe_calls (snd (consumeMessage kafkajs parse_unary fresh [] no_options [] 1))
     = 1"
  by (simp add: one_defs many_defs helper_defs time_defs example_defs)

text \<open>
  C7 (as the code has it). The helper does not retry and has no backoff. Each call
  invokes \<^verbatim>\<open>subscribe\<close> at most once, exactly once on a connected helper; when that one
  attempt fails, the call throws the client's error at once, and the outer handler logs
  it. A failure of the consumer or of the transport during the wait runs no code of the
  helper: it is neither retried nor surfaced, and the outcome and the helper are what
  they are without it, so that the wait ends with its timeout result when nothing else
  decides it.
\<close>

theorem C7_no_retry_and_no_notice_of_a_failure:
  "subscribe_calls (snd (consumeMessage cl parse h topic opts tml now))
     \<le> Suc (subscribe_calls h)
   \<and> subscribe_calls (snd (consumeMessages cl parse h topic opts tml now))
       \<le> Suc (subscribe_calls h)
   \<and> (isConnected h
      \<longrightarrow> subscribe_calls (snd (consumeMessage cl parse h topic opts tml now))
            = Suc (subscribe_calls h)
        \<and> subscribe_calls (snd (consumeMessages cl parse h topic opts tml now))
            = Suc (subscribe_calls h))
   \<and> (isConnected h \<and> subscribe_answer cl (subscribe_calls h) topic = Some e
      \<longrightarrow> fst (consumeMessage cl parse h topic opts tml now) = Threw e
        \<and> last (logs (snd (consumeMessage cl parse h topic opts tml now)))
            = (Err, ''Failed to consume message from topic: '' @ topic)
        \<and> fst (consumeMessages cl parse h topic opts tml now) = Threw e
        \<and> last (logs (snd (consumeMessages cl parse h topic opts tml now)))
            = (Err, ''Failed to consume messages from topic: '' @ topic))
   \<and> consumeMessage cl parse h topic opts (pre @ (t, Crashes e') # post) now
       = consumeMessage cl parse h topic opts (pre @ post) now
   \<and> consumeMessages cl parse h topic opts (pre @ (t, Crashes e') # post) now
       = consumeMessages cl parse h topic opts (pre @ post) now"
proof (intro conjI impI)
  show "subscribe_calls (snd (consumeMessage cl parse h topic opts tml now))
       \<le> Suc (subscribe_calls h)"
    by (cases "isConnected h")
       (simp_all add: subscribe_calls_connected consumeMessage_not_connected)
  show "subscribe_calls (snd (consumeMessages cl parse h topic opts tml now))
       \<le> Suc (subscribe_calls h)"
    by (cases "isConnected h")
       (simp_all add: subscribe_calls_connected consumeMessages_not_connected)
next
  assume "isConnected h"
  then show "subscribe_calls (snd (consumeMessage cl parse h topic opts tml now))
            = Suc (subscribe_calls h)"
    and "subscribe_calls (snd (consumeMessages cl parse h topic opts tml now))
            = Suc (subscribe_calls h)"
    by (simp_all add: subscribe_calls_connected)
next
  assume a: "isConnected h \<and> subscribe_answer cl (subscribe_calls h) topic = Some e"
  from a
    consumeMessage_subscribe_fails
      [where h = h and cl = cl and e = e and parse = parse and topic = topic
         and opts = opts and tml = tml and now = now]
  show "fst (consumeMessage cl parse h topic opts tml now) = Threw e"
    and "last (logs (snd (consumeMessage cl parse h topic opts tml now)))
            = (Err, ''Failed to consume message from topic: '' @ topic)"
    by simp_all
  from a
    consumeMessages_subscribe_fails
      [where h = h and cl = cl and e = e and parse = parse and topic = topic
         and opts = opts and tml = tml and now = now]
  show "fst (consumeMessages cl parse h topic opts tml now) = Threw e"
    and "last (logs (snd (consumeMessages cl parse h topic opts tml now)))
            = (Err, ''Failed to consume messages from topic: '' @ topic)"
    by simp_all
next
  show "consumeMessage cl parse h topic opts (pre @ (t, Crashes e') # post) now
       = consumeMessage cl parse h topic opts (pre @ post) now"
    by (rule consumeMessage_crash)
  show "consumeMessages cl parse h topic opts (pre @ (t, Crashes e') # post) now
       = consumeMessages cl parse h topic opts (pre @ post) now"
    by (rule consumeMessages_crash)
qed

theorem C7_witness:
  "subscribe_calls (snd (consumeMessage kafkajs parse_unary fresh ''t'' no_options
        [(100, Crashes (Error ''disconnected''))] 10000))
     = Suc (subscribe_calls fresh)
   \<and> fst (consumeMessages flaky parse_unary fresh ''t'' no_options
        [(10, Delivers (msg_at 5 ''1''))] 10000)
     = Threw (Error ''disconnected'')
   \<and> last (logs (snd (consumeMessages flaky parse_unary fresh ''t'' no_options
        [(10, Delivers (msg_at 5 ''1''))] 10000)))
     = (Err, ''Failed to consume messages from topic: '' @ ''t'')"
proof -
  have 1: "isConnected fresh" by (simp add: fresh_def)
  have 2: "subscribe_answer flaky (subscribe_calls fresh) ''t'' = Some (Error ''disconnected'')"
    by (simp add: flaky_def kafkajs_def fresh_def)
  have a: "subscribe_calls (snd (consumeMessage kafkajs parse_unary fresh ''t'' no_options
        [(100, Crashes (Error ''disconnected''))] 10000))
     = Suc (subscribe_calls fresh)"
    using C7_no_retry_and_no_notice_of_a_failure
            [where h = fresh and cl = kafkajs and parse = parse_unary and topic = "''t''"
               and opts = no_options and tml = "[(100, Crashes (Error ''disconnected''))]"
               and now = 10000,
             THEN conjunct2, THEN conjunct2, THEN conjunct1, THEN mp, OF 1, THEN conjunct1] .
  note f = C7_no_retry_and_no_notice_of_a_failure
            [where h = fresh and cl = flaky and parse = parse_unary and topic = "''t''"
               and opts = no_options and tml = "[(10, Delivers (msg_at 5 ''1''))]"
               and now = 10000 and e = "Error ''disconnected''",
             THEN conjunct2, THEN conjunct2, THEN conjunct2, THEN conjunct1, THEN mp,
             OF conjI [OF 1 2]]
  have b: "fst (consumeMessages flaky parse_unary fresh ''t'' no_options
        [(10, Delivers (msg_at 5 ''1''))] 10000)
     = Threw (Error ''disconnected'')"
    using f [THEN conjunct2, THEN conjunct2, THEN conjunct1] .
  have c: "last (logs (snd (consumeMessages flaky parse_unary fresh ''t'' no_options
        [(10, Delivers (msg_at 5 ''1''))] 10000)))
     = (Err, ''Failed to consume messages from topic: '' @ ''t'')"
    using f [THEN conjunct2, THEN conjunct2, THEN conjunct2] .
  from a b c show ?thesis by (intro conjI)
qed

text \<open>
  The claim as stated fails. A failure of the transport during an active wait is
  neither retried nor surfaced: the call ends at the deadline with the timeout result,
  null or the empty list, after a single \<^verbatim>\<open>subscribe\<close>, exactly as the wait in which
  nothing happens. And with a client whose first \<^verbatim>\<open>subscribe\<close> fails and whose second
  would succeed, the call throws after one attempt.
\<close>

theorem C7_counterexample:
  "fst (consumeMessage kafkajs parse_unary fresh ''t'' no_options
          [(100, Crashes (Error ''disconnected''))] 10000)
     = Returned None
   \<and> subscribe_calls (snd (consumeMessage kafkajs parse_unary fresh ''t'' no_options
          [(100, Crashes (Error ''disconnected''))] 10000))
     = 1
   \<and> consumeMessage kafkajs parse_unary fresh ''t'' no_options
          [(100, Crashes (Error ''disconnected''))] 10000
     = consumeMessage kafkajs parse_unary fresh ''t'' no_options [] 10000
   \<and> fst (consumeMessages kafkajs parse_unary fresh ''t'' no_options
          [(100, Crashes (Error ''disconnected''))] 10000)
     = Returned []
   \<and> fst (consumeMessage flaky parse_unary fresh ''t'' no_options [] 10000)
     = Threw (Error ''disconnected'')
   \<and> subscribe_calls (snd (consumeMessage flaky parse_unary fresh ''t'' no_options [] 10000))
     = 1
   \<and> subscribe_answer flaky 1 ''t'' = None"
  by (simp add: one_defs many_defs helper_defs time_defs example_defs)

section \<open>The default origin\<close>

lemma payloads_map_Message: "payloads (map Message ds) = ds"
  by (induction ds) simp_all

lemma early_stream_from:
  assumes "\<forall>y\<in>set retained. fst y < delay \<and> fst y \<le> now"
  shows "early delay now (stream_from True retained []) = map Message (map snd retained)"
proof -
  have "filter (\<lambda>y. fst y < delay \<and> fst y \<le> now) retained = retained"
    using assms by (simp add: filter_id_conv)
  then show ?thesis
    by (simp add: early_def stream_from_def filter_map o_def)
qed

text \<open>
  C9. When the caller leaves \<^verbatim>\<open>fromBeginning\<close> out, both operations subscribe with
  \<^verbatim>\<open>fromBeginning: true\<close>, so the stream of the subscription holds the messages
  retained before the wait began. A satisfying one among them, delivered before the
  delay of the timer after retained messages that were turned down, is the one that
  \<^verbatim>\<open>consumeMessage\<close> selects: the call returns its event when the awaited \<^verbatim>\<open>stop\<close>
  completes, and stays pending otherwise, so with kafkajs the event is observed and
  yet never returned. \<^verbatim>\<open>consumeMessages\<close>, with a cap of at least 1 that the retained
  satisfying messages do not reach, returns them at the deadline.
\<close>

theorem C9_default_origin_is_earliest:
  assumes "opt_fromBeginning opts = None"
    and "isConnected h" and "subscribe_answer cl (subscribe_calls h) topic = None"
  shows "subscriptions (snd (consumeMessage cl parse h topic opts tml now))
           = subscriptions h @ [(topic, True)]
       \<and> subscriptions (snd (consumeMessages cl parse h topic opts tml now))
           = subscriptions h @ [(topic, True)]
       \<and> ((\<forall>y\<in>set pre. judge parse (opt_filter opts) (snd y) = Skipped)
             \<and> t < timer_delay (timeout_of opts) \<and> t \<le> now
             \<and> judge parse (opt_filter opts) d = Accepted v
           \<longrightarrow> fst (consumeMessage cl parse h topic opts
                      (stream_from (fromBeginning_of opts) (pre @ (t, d) # others) later) now)
                 = (if stop_completes cl then Returned (Some (mk_event d v)) else Waiting))
       \<and> (1 \<le> maxMessages_of opts
             \<and> (\<forall>y\<in>set retained. fst y < timer_delay (timeout_of opts)
                                     \<and> \<not> raising parse (opt_filter opts) (snd y))
             \<and> int (length (satisfying parse (opt_filter opts) (map snd retained)))
                 < maxMessages_of opts
             \<and> timer_delay (timeout_of opts) \<le> now
           \<longrightarrow> fst (consumeMessages cl parse h topic opts
                      (stream_from (fromBeginning_of opts) retained []) now)
                 = Returned (satisfying parse (opt_filter opts) (map snd retained)))"
proof (intro conjI impI)
  have fb: "fromBeginning_of opts = True"
    using assms(1) by (simp add: fromBeginning_of_def)
  from assms(2,3) fb show "subscriptions (snd (consumeMessage cl parse h topic opts tml now))
           = subscriptions h @ [(topic, True)]"
    by (simp add: consumeMessage_subscribed)
  from assms(2,3) fb show "subscriptions (snd (consumeMessages cl parse h topic opts tml now))
           = subscriptions h @ [(topic, True)]"
    by (simp add: consumeMessages_subscribed)
  {
    assume a: "(\<forall>y\<in>set pre. judge parse (opt_filter opts) (snd y) = Skipped)
             \<and> t < timer_delay (timeout_of opts) \<and> t \<le> now
             \<and> judge parse (opt_filter opts) d = Accepted v"
    have s: "stream_from (fromBeginning_of opts) (pre @ (t, d) # others) later
               = map (\<lambda>y. (fst y, Delivers (snd y))) pre @ (t, Delivers d)
                   # map (\<lambda>y. (fst y, Delivers (snd y))) (others @ later)"
      by (simp add: fb stream_from_def)
    from a have p: "\<forall>y\<in>set (map (\<lambda>y. (fst y, Delivers (snd y))) pre).
                      turned_down parse (opt_filter opts) (event_of (snd y))"
      by (simp add: turned_down_def)
    from a have t: "t < timer_delay (timeout_of opts)" "t \<le> now"
      and j: "judge parse (opt_filter opts) d = Accepted v"
      by simp_all
    from j have ns: "judge parse (opt_filter opts) d \<noteq> Skipped" by simp
    show "fst (consumeMessage cl parse h topic opts
                      (stream_from (fromBeginning_of opts) (pre @ (t, d) # others) later) now)
                 = (if stop_completes cl then Returned (Some (mk_event d v)) else Waiting)"
      by (simp add: consumeMessage_result [OF assms(2,3)] s first_decisive_cut [OF p t ns] j
          settle_one_def completion_of_def)
  }
  {
    assume a: "1 \<le> maxMessages_of opts
             \<and> (\<forall>y\<in>set retained. fst y < timer_delay (timeout_of opts)
                                     \<and> \<not> raising parse (opt_filter opts) (snd y))
             \<and> int (length (satisfying parse (opt_filter opts) (map snd retained)))
                 < maxMessages_of opts
             \<and> timer_delay (timeout_of opts) \<le> now"
    then have k: "1 \<le> maxMessages_of opts"
      and r: "\<forall>y\<in>set retained. fst y < timer_delay (timeout_of opts) \<and> fst y \<le> now"
      and c: "\<forall>y\<in>set retained. \<not> raising parse (opt_filter opts) (snd y)"
      by auto
    note e = early_stream_from [OF r]
    from c have cl: "\<forall>i\<in>set (early (timer_delay (timeout_of opts)) now
                                 (stream_from True retained [])).
                       clean parse (opt_filter opts) i"
      by (simp add: e clean_def)
    have o: "observed (timer_delay (timeout_of opts)) now (stream_from True retained [])
               = map snd retained"
      by (simp only: observed_def e payloads_map_Message)
    from a show "fst (consumeMessages cl parse h topic opts
                      (stream_from (fromBeginning_of opts) retained []) now)
                 = Returned (satisfying parse (opt_filter opts) (map snd retained))"
      by (simp add: fb consumeMessages_result [OF assms(2,3)] gather_observed [OF cl k] o
          settle_many_def completion_of_def)
  }
qed

text \<open>
  An instance: a satisfying message retained before the wait is selected with the
  default origin; with kafkajs the call of \<^verbatim>\<open>consumeMessage\<close> then stays pending, with a
  client whose \<^verbatim>\<open>stop\<close> completes it returns the event, and \<^verbatim>\<open>consumeMessages\<close> returns
  it at the deadline.
\<close>

theorem C9_witness:
  "subscriptions (snd (consumeMessage kafkajs parse_unary fresh ''t'' no_options
      (stream_from True ([] @ (2, msg_at 4 ''11'') # []) []) 10000))
     = subscriptions fresh @ [(''t'', True)]
   \<and> fst (consumeMessage kafkajs parse_unary fresh ''t'' no_options
      (stream_from True ([] @ (2, msg_at 4 ''11'') # []) []) 10000)
     = Waiting
   \<and> fst (consumeMessage test_double parse_unary fresh ''t'' no_options
      (stream_from True ([] @ (2, msg_at 4 ''11'') # []) []) 10000)
     = Returned (Some (mk_event (msg_at 4 ''11'') 2))
   \<and> fst (consumeMessages kafkajs parse_unary fresh ''t'' no_options
      (stream_from True [(2, msg_at 4 ''11'')] []) 10000)
     = Returned [mk_event (msg_at 4 ''11'') 2]"
proof -
  let ?opts = "no_options :: nat options"
  have 1: "opt_fromBeginning ?opts = None" by (simp add: no_options_def)
  have 2: "isConnected fresh" by (simp add: fresh_def)
  have 3: "subscribe_answer kafkajs (subscribe_calls fresh) ''t'' = None"
    "subscribe_answer test_double (subscribe_calls fresh) ''t'' = None"
    by (simp_all add: kafkajs_def test_double_def)
  have f: "opt_filter ?opts = None" by (simp add: no_options_def)
  have j: "judge parse_unary None (msg_at 4 ''11'') = Accepted 2"
    by (simp add: judge_def decode_def example_defs)
  have fb: "fromBeginning_of ?opts = True"
    by (simp add: fromBeginning_of_def no_options_def)
  have m: "maxMessages_of ?opts = 10"
    by (simp add: maxMessages_of_def no_options_def)
  have d: "timer_delay (timeout_of ?opts) = 10000"
    by (simp add: timer_delay_def timeout_of_def no_options_def)
  have k: "\<not> stop_completes kafkajs" "stop_completes test_double"
    by (simp_all add: kafkajs_def test_double_def)
  have p: "(\<forall>y\<in>set ([] :: (nat \<times> payload) list). judge parse_unary (opt_filter ?opts) (snd y) = Skipped)
             \<and> (2::nat) < timer_delay (timeout_of ?opts) \<and> (2::nat) \<le> 10000
             \<and> judge parse_unary (opt_filter ?opts) (msg_at 4 ''11'') = Accepted 2"
    by (simp add: d f j)
  have s: "satisfying parse_unary None [msg_at 4 ''11''] = [mk_event (msg_at 4 ''11'') 2]"
    by (simp add: j)
  have q: "1 \<le> maxMessages_of ?opts
             \<and> (\<forall>y\<in>set [(2::nat, msg_at 4 ''11'')]. fst y < timer_delay (timeout_of ?opts)
                                     \<and> \<not> raising parse_unary (opt_filter ?opts) (snd y))
             \<and> int (length (satisfying parse_unary (opt_filter ?opts)
                               (map snd [(2::nat, msg_at 4 ''11'')])))
                 < maxMessages_of ?opts
             \<and> timer_delay (timeout_of ?opts) \<le> 10000"
    by (simp add: d f m s raising_def j)
  note kt = C9_default_origin_is_earliest
             [where cl = kafkajs and topic = "''t''" and parse = parse_unary, OF 1 2 3(1),
              where pre = "[]" and t = 2 and d = "msg_at 4 ''11''" and v = 2 and others = "[]"
                and later = "[]" and now = 10000
                and retained = "[(2, msg_at 4 ''11'')]"
                and tml = "stream_from True ([] @ (2, msg_at 4 ''11'') # []) []"]
  note tt = C9_default_origin_is_earliest
             [where cl = test_double and topic = "''t''" and parse = parse_unary, OF 1 2 3(2),
              where pre = "[]" and t = 2 and d = "msg_at 4 ''11''" and v = 2 and others = "[]"
                and later = "[]" and now = 10000
                and retained = "[(2, msg_at 4 ''11'')]"
                and tml = "stream_from True ([] @ (2, msg_at 4 ''11'') # []) []"]
  have a: "subscriptions (snd (consumeMessage kafkajs parse_unary fresh ''t'' ?opts
      (stream_from True ([] @ (2, msg_at 4 ''11'') # []) []) 10000))
     = subscriptions fresh @ [(''t'', True)]"
    using kt [THEN conjunct1] .
  have b: "fst (consumeMessage kafkajs parse_unary fresh ''t'' ?opts
      (stream_from True ([] @ (2, msg_at 4 ''11'') # []) []) 10000)
     = Waiting"
    using kt [THEN conjunct2, THEN conjunct2, THEN conjunct1, THEN mp, OF p] k(1)
    by (simp only: fb if_False)
  have c: "fst (consumeMessage test_double parse_unary fresh ''t'' ?opts
      (stream_from True ([] @ (2, msg_at 4 ''11'') # []) []) 10000)
     = Returned (Some (mk_event (msg_at 4 ''11'') 2))"
    using tt [THEN conjunct2, THEN conjunct2, THEN conjunct1, THEN mp, OF p] k(2)
    by (simp only: fb if_True)
  have e: "fst (consumeMessages kafkajs parse_unary fresh ''t'' ?opts
      (stream_from True [(2, msg_at 4 ''11'')] []) 10000)
     = Returned [mk_event (msg_at 4 ''11'') 2]"
    using kt [THEN conjunct2, THEN conjunct2, THEN conjunct2, THEN mp, OF q]
    by (simp only: fb f list.map snd_conv s)
  from a b c e show ?thesis by (intro conjI)
qed

section \<open>From produceMessage to consumeMessage\<close>





section \<open>The timeout path leaves the consumer running\<close>

text \<open>
  C2. A wait of \<^verbatim>\<open>consumeMessage\<close> that sees no message and whose timer fires returns
  null, and the consumer it started is still running: \<^verbatim>\<open>stop\<close> was never called. The
  same holds for \<^verbatim>\<open>consumeMessages\<close>, which returns the empty list. This is so with
  kafkajs and with a client whose \<^verbatim>\<open>stop\<close> completes at once. The match path and the
  error path of the same callback both call \<^verbatim>\<open>stop\<close>.
\<close>

theorem C2_timeout_leaves_consumer_running:
  "fst (consumeMessage kafkajs parse_unary fresh ''t'' no_options [] 10000) = Returned None
   \<and> running (snd (consumeMessage kafkajs parse_unary fresh ''t'' no_options [] 10000))
   \<and> stop_calls (snd (consumeMessage kafkajs parse_unary fresh ''t'' no_options [] 10000)) = 0
   \<and> fst (consumeMessages kafkajs parse_unary fresh ''t'' no_options [] 10000) = Returned []
   \<and> running (snd (consumeMessages kafkajs parse_unary fresh ''t'' no_options [] 10000))
   \<and> stop_calls (snd (consumeMessages kafkajs parse_unary fresh ''t'' no_options [] 10000)) = 0
   \<and> fst (consumeMessage test_double parse_unary fresh ''t'' no_options [] 10000)
       = Returned None
   \<and> running (snd (consumeMessage test_double parse_unary fresh ''t'' no_options [] 10000))
   \<and> stop_calls (snd (consumeMessage test_double parse_unary fresh ''t'' no_options [] 10000))
       = 0
   \<and> fst (consumeMessages test_double parse_unary fresh ''t'' no_options [] 10000)
       = Returned []
   \<and> running (snd (consumeMessages test_double parse_unary fresh ''t'' no_options [] 10000))
   \<and> stop_calls (snd (consumeMessages test_double parse_unary fresh ''t'' no_options [] 10000))
       = 0
   \<and> \<not> running (snd (consumeMessage kafkajs parse_unary fresh ''t'' no_options
                        [(10, Delivers (msg_at 0 ''11''))] 10000))
   \<and> \<not> running (snd (consumeMessage kafkajs parse_unary fresh ''t'' no_options
                        [(10, Delivers (msg_at 0 ''x''))] 10000))
   \<and> \<not> running (snd (consumeMessage test_double parse_unary fresh ''t'' no_options
                        [(10, Delivers (msg_at 0 ''11''))] 10000))
   \<and> \<not> running (snd (consumeMessage test_double parse_unary fresh ''t'' no_options
                        [(10, Delivers (msg_at 0 ''x''))] 10000))"
  by (simp add: one_defs many_defs helper_defs time_defs example_defs)


end
